(* ===== verification/Prelude.thy ===== *)
theory Prelude
  imports Complex_Main "HOL-Library.Word" "HOL-Library.Signed_Division" "HOL-Library.Multiset"
begin

text \<open>
  What every component of the development shares: the collection of frame rules, the
  integer types of the C++ code with their conversions, the clock, bounded ring buffers over
  lists, and the contract of a deterministic state machine with an invariant.

  \<^item> \<open>int32_t\<close>, \<open>int64_t\<close> and \<open>int\<close> values are \<open>int\<close>, and a narrowing conversion is
    written out with \<open>wrap32\<close> or \<open>wrap64\<close> (two's complement, as C++20 defines it);
    \<open>uint32_t\<close> and \<open>size_t\<close> are machine words.
  \<^item> \<open>std::chrono::system_clock::time_point\<close> is the number of nanoseconds since the epoch.
  \<^item> C++ integer division truncates towards zero: \<open>sdiv\<close> and \<open>smod\<close> of
    \<open>HOL-Library.Signed_Division\<close>.
\<close>

section \<open>Frame rules\<close>

named_theorems frame_simps \<open>fields an operation leaves unchanged\<close>

section \<open>Integers and the clock\<close>

type_synonym uint32 = "32 word"
type_synonym size_t = "64 word"
type_synonym time_point = int

abbreviation wrap32 :: "int \<Rightarrow> int" where
  "wrap32 i \<equiv> signed_take_bit 31 i"

abbreviation wrap64 :: "int \<Rightarrow> int" where
  "wrap64 i \<equiv> signed_take_bit 63 i"

abbreviation nanos_per_sec :: int where
  "nanos_per_sec \<equiv> 1000000000"

abbreviation seconds :: "int \<Rightarrow> int" where
  "seconds n \<equiv> n * nanos_per_sec"

abbreviation millis :: "int \<Rightarrow> int" where
  "millis n \<equiv> n * 1000000"

abbreviation minutes :: "int \<Rightarrow> int" where
  "minutes n \<equiv> n * (60 * nanos_per_sec)"

text \<open>\<open>system_clock::to_time_t\<close> is a \<open>duration_cast\<close> to seconds: it truncates.\<close>

definition to_time_t :: "time_point \<Rightarrow> int" where
  "to_time_t t = t sdiv nanos_per_sec"

text \<open>
  \<open>(tt % 86400) / 60\<close>: the minute of the UTC day. The expression occurs in
  \<open>SessionContext::to_utc_minutes\<close>, \<open>ConfluenceStrategy::session_open_utc_min\<close> and
  \<open>MaintenanceWindow::utc_min_now\<close>.
\<close>

definition utc_minute :: "int \<Rightarrow> int" where
  "utc_minute tt = (tt smod 86400) sdiv 60"

lemma wrap32_id: "- (2 ^ 31) \<le> i \<Longrightarrow> i < 2 ^ 31 \<Longrightarrow> wrap32 i = i"
  by (simp add: signed_take_bit_int_eq_self)

lemma wrap64_id: "- (2 ^ 63) \<le> i \<Longrightarrow> i < 2 ^ 63 \<Longrightarrow> wrap64 i = i"
  by (simp add: signed_take_bit_int_eq_self)

lemma wrap32_range: "- (2 ^ 31) \<le> wrap32 i \<and> wrap32 i < 2 ^ 31"
  using signed_take_bit_int_greater_eq_minus_exp[of 31 i] signed_take_bit_int_less_exp[of 31 i]
  by simp

lemma wrap64_Suc [simp]: "wrap64 (wrap64 k + 1) = wrap64 (k + 1)"
  using signed_take_bit_add[of 63 k 1] by simp

lemma sdiv_nonneg: "0 \<le> a \<Longrightarrow> 0 \<le> b \<Longrightarrow> a sdiv b = a div (b::int)"
  by (cases "a = 0"; cases "b = 0") (auto simp: signed_divide_int_def)

lemma smod_nonneg: "0 \<le> a \<Longrightarrow> 0 \<le> b \<Longrightarrow> a smod b = a mod (b::int)"
  by (cases "a = 0") (auto simp: signed_modulo_int_def)

lemma utc_minute_bounds:
  assumes "0 \<le> tt"
  shows "0 \<le> utc_minute tt" and "utc_minute tt < 1440"
proof -
  have "utc_minute tt = (tt mod 86400) div 60"
    using assms by (simp add: utc_minute_def smod_nonneg sdiv_nonneg)
  moreover have "0 \<le> tt mod 86400" "tt mod 86400 < 86400" by auto
  ultimately show "0 \<le> utc_minute tt" and "utc_minute tt < 1440" by auto
qed

section \<open>Ring buffers over lists\<close>

text \<open>The \<open>n\<close> entries of a cyclic buffer from index \<open>i\<close> on.\<close>

definition ring_slice :: "'a list \<Rightarrow> nat \<Rightarrow> nat \<Rightarrow> 'a list" where
  "ring_slice buf i n = map (\<lambda>k. buf ! ((i + k) mod length buf)) [0..<n]"

lemma length_ring_slice [simp]: "length (ring_slice buf i n) = n"
  by (simp add: ring_slice_def)

lemma ring_slice_0 [simp]: "ring_slice buf i 0 = []"
  by (simp add: ring_slice_def)

lemma nth_ring_slice: "k < n \<Longrightarrow> ring_slice buf i n ! k = buf ! ((i + k) mod length buf)"
  by (simp add: ring_slice_def)

lemma ring_slice_snoc:
  "ring_slice buf i (Suc n) = ring_slice buf i n @ [buf ! ((i + n) mod length buf)]"
  by (simp add: ring_slice_def)

lemma ring_slice_Cons:
  "ring_slice buf i (Suc n) = buf ! (i mod length buf) # ring_slice buf (Suc i) n"
  by (rule nth_equalityI) (auto simp: nth_ring_slice nth_Cons split: nat.split)

lemma ring_slice_mod: "ring_slice buf (i mod length buf) n = ring_slice buf i n"
  by (simp add: ring_slice_def mod_add_left_eq)

text \<open>Distinct offsets below the capacity denote distinct slots.\<close>

lemma ring_index_inj:
  assumes "(i + k) mod N = (i + m) mod N" "k < N" "m < (N::nat)"
  shows "k = m"
proof -
  have "int N dvd int (i + k) - int (i + m)"
    using assms(1) by (metis mod_eq_dvd_iff of_nat_mod)
  then have "int N dvd int k - int m" by simp
  moreover have "\<bar>int k - int m\<bar> < int N" using assms(2,3) by linarith
  ultimately show ?thesis
    using zdvd_imp_le[of "int N" "\<bar>int k - int m\<bar>"] by (cases "k = m") auto
qed

text \<open>Writing the slot one past a slice shorter than the capacity leaves the slice alone.\<close>

lemma ring_slice_update_next:
  assumes "n < length buf"
  shows "ring_slice (buf[(i + n) mod length buf := x]) i n = ring_slice buf i n"
    and "ring_slice (buf[(i + n) mod length buf := x]) i (Suc n) = ring_slice buf i n @ [x]"
proof -
  have N: "0 < length buf" using assms by linarith
  have ne: "(i + k) mod length buf \<noteq> (i + n) mod length buf" if "k < n" for k
    using that assms ring_index_inj[of i k "length buf" n] by auto
  show 1: "ring_slice (buf[(i + n) mod length buf := x]) i n = ring_slice buf i n"
    by (rule nth_equalityI) (simp_all add: nth_ring_slice ne[symmetric])
  show "ring_slice (buf[(i + n) mod length buf := x]) i (Suc n) = ring_slice buf i n @ [x]"
    unfolding ring_slice_snoc 1 using N by simp
qed

section \<open>State machines with an invariant\<close>

text \<open>
  A component whose operations are the cases of a step function: if every step keeps the
  invariant, every run does. Each component interprets it on its own operations.
\<close>

locale inv_machine =
  fixes step :: "'s \<Rightarrow> 'e \<Rightarrow> 's"
    and inv :: "'s \<Rightarrow> bool"
  assumes step_inv: "inv s \<Longrightarrow> inv (step s e)"
begin

lemma run_inv: "inv s \<Longrightarrow> inv (foldl step s es)"
  by (induction es arbitrary: s) (auto intro: step_inv)

lemma run_inv_prefix: "inv s \<Longrightarrow> inv (foldl step s (take n es))"
  by (rule run_inv)

end

text \<open>
  An invariant that only the steps allowed by a guard keep, and the runs all of whose steps
  the guard allows.
\<close>

fun guarded :: "('s \<Rightarrow> 'e \<Rightarrow> 's) \<Rightarrow> ('s \<Rightarrow> 'e \<Rightarrow> bool) \<Rightarrow> 's \<Rightarrow> 'e list \<Rightarrow> bool" where
  "guarded step guard s [] = True"
| "guarded step guard s (e # es) = (guard s e \<and> guarded step guard (step s e) es)"

locale guarded_machine =
  fixes step :: "'s \<Rightarrow> 'e \<Rightarrow> 's"
    and guard :: "'s \<Rightarrow> 'e \<Rightarrow> bool"
    and inv :: "'s \<Rightarrow> bool"
  assumes guarded_step: "inv s \<Longrightarrow> guard s e \<Longrightarrow> inv (step s e)"
begin

lemma guarded_run: "inv s \<Longrightarrow> guarded step guard s es \<Longrightarrow> inv (foldl step s es)"
  by (induction es arbitrary: s) (auto intro: guarded_step)

end

text \<open>
  A machine in which a part \<open>obs\<close> of the state, once it satisfies \<open>stuck\<close>, never changes:
  the shape of every latch of the program (a tripped breaker, a stop flag).
\<close>

locale latch_machine =
  fixes step :: "'s \<Rightarrow> 'e \<Rightarrow> 's"
    and latched :: "'s \<Rightarrow> bool"
    and obs :: "'s \<Rightarrow> 'o"
  assumes latch_step: "latched s \<Longrightarrow> latched (step s e)"
    and obs_step: "latched s \<Longrightarrow> obs (step s e) = obs s"
begin

lemma latch_run: "latched s \<Longrightarrow> latched (foldl step s es) \<and> obs (foldl step s es) = obs s"
  by (induction es arbitrary: s) (auto simp: latch_step obs_step)

end

sublocale latch_machine \<subseteq> latched: inv_machine step latched
  by unfold_locales (rule latch_step)

sublocale inv_machine \<subseteq> unguarded: guarded_machine step "\<lambda>_ _. True" inv
  by unfold_locales (rule step_inv)

text \<open>
  A detailed step relation that implements an abstract one: under an invariant every step is one of the
  abstract machine, seen through \<open>abs_of\<close>, or does not show there. What all runs of the abstract
  machine guarantee, all runs of the detailed one do.
\<close>

locale simulation =
  fixes cstep :: "'c \<Rightarrow> 'c \<Rightarrow> bool"
    and inv :: "'c \<Rightarrow> bool"
    and abs_of :: "'c \<Rightarrow> 'a"
    and astep :: "'a \<Rightarrow> 'a \<Rightarrow> bool"
  assumes inv_step: "inv c \<Longrightarrow> cstep c c' \<Longrightarrow> inv c'"
    and abs_step: "inv c \<Longrightarrow> cstep c c' \<Longrightarrow> abs_of c' = abs_of c \<or> astep (abs_of c) (abs_of c')"
begin

lemma steps_simulated:
  assumes "rtranclp cstep c c'" and "inv c"
  shows "inv c' \<and> rtranclp astep (abs_of c) (abs_of c')"
  using assms
proof (induction rule: rtranclp_induct)
  case (step d e)
  then have "inv d" "rtranclp astep (abs_of c) (abs_of d)" by auto
  with inv_step[OF this(1) step.hyps(2)] abs_step[OF this(1) step.hyps(2)] show ?case by auto
qed simp

end

end
