(* ===== verification/Doubles.thy ===== *)
theory Doubles
  imports Prelude
begin

text \<open>
  The C++ type \<open>double\<close>: IEEE 754 binary64 with rounding to nearest, ties to even. A finite
  value is kept as the rational number it denotes, and every arithmetic operation computes the
  exact rational result and rounds it to 53 significant bits with the subnormal range cut at
  \<open>2 ^ -1074\<close>, overflowing to an infinity. NaN and the infinities propagate as the standard
  says, and every ordered comparison with NaN is false.

  The two zeros are identified: no branch of the modelled code tells them apart, since it never
  divides by a value that could be a negative zero. A value \<open>Fin q\<close> whose \<open>q\<close> is not
  representable denotes no machine value; \<open>is_double\<close> says which are, and every operation
  returns one.

  The lemmas give what the components need of rounding: it is monotone, it is odd, it is the
  identity on representable numbers (the integers up to \<open>2 ^ 53\<close> among them), and so a
  bound by representable numbers survives it.
\<close>

section \<open>Definitions\<close>

datatype double = NaN | PInf | NInf | Fin rat

subsection \<open>Rounding to nearest, ties to even\<close>

function bit_len :: "int \<Rightarrow> nat" where
  "bit_len n = (if n \<le> 0 then 0 else Suc (bit_len (n div 2)))"
  by pat_completeness auto
termination
  by (relation "measure nat") auto

declare bit_len.simps [simp del]

text \<open>The binary exponent of a positive rational: \<open>2 powi ilog2 q \<le> q < 2 powi (ilog2 q + 1)\<close>.\<close>

definition ilog2 :: "rat \<Rightarrow> int" where
  "ilog2 q = (let (n, d) = quotient_of q; k = int (bit_len n) - int (bit_len d)
              in if q < 2 powi k then k - 1 else k)"

definition round_even :: "rat \<Rightarrow> int" where
  "round_even x =
     (let f = \<lfloor>x\<rfloor>; d = x - of_int f
      in if d < 1/2 then f else if 1/2 < d then f + 1 else if even f then f else f + 1)"

definition ulp_exp :: "rat \<Rightarrow> int" where
  "ulp_exp q = max (ilog2 \<bar>q\<bar> - 52) (- 1074)"

definition rnd_val :: "rat \<Rightarrow> rat" where
  "rnd_val q =
     (if q = 0 then 0 else of_int (round_even (q / 2 powi ulp_exp q)) * 2 powi ulp_exp q)"

definition rnd :: "rat \<Rightarrow> double" where
  "rnd q = (let r = rnd_val q
            in if 2 powi 1024 \<le> r then PInf else if r \<le> - (2 powi 1024) then NInf else Fin r)"

definition is_double :: "double \<Rightarrow> bool" where
  "is_double x = (case x of Fin q \<Rightarrow> rnd q = Fin q | _ \<Rightarrow> True)"

text \<open>A decimal literal of the source denotes the nearest double.\<close>

abbreviation lit :: "rat \<Rightarrow> double" where
  "lit q \<equiv> rnd q"

subsection \<open>Arithmetic and comparisons\<close>

definition signed_inf :: "rat \<Rightarrow> double" where
  "signed_inf s = (if s = 0 then NaN else if 0 < s then PInf else NInf)"

instantiation double :: "{zero, one, uminus, plus, minus, times, inverse, ord}"
begin

definition zero_double_def: "0 = Fin 0"

definition one_double_def: "1 = Fin 1"

fun uminus_double :: "double \<Rightarrow> double" where
  "uminus_double NaN = NaN"
| "uminus_double PInf = NInf"
| "uminus_double NInf = PInf"
| "uminus_double (Fin a) = Fin (- a)"

fun plus_double :: "double \<Rightarrow> double \<Rightarrow> double" where
  "plus_double (Fin a) (Fin b) = rnd (a + b)"
| "plus_double NaN _ = NaN"
| "plus_double _ NaN = NaN"
| "plus_double PInf NInf = NaN"
| "plus_double NInf PInf = NaN"
| "plus_double PInf _ = PInf"
| "plus_double _ PInf = PInf"
| "plus_double NInf _ = NInf"
| "plus_double _ NInf = NInf"

definition minus_double_def: "x - y = x + (- y :: double)"

fun times_double :: "double \<Rightarrow> double \<Rightarrow> double" where
  "times_double (Fin a) (Fin b) = rnd (a * b)"
| "times_double NaN _ = NaN"
| "times_double _ NaN = NaN"
| "times_double (Fin a) PInf = signed_inf a"
| "times_double (Fin a) NInf = signed_inf (- a)"
| "times_double PInf (Fin a) = signed_inf a"
| "times_double NInf (Fin a) = signed_inf (- a)"
| "times_double PInf PInf = PInf"
| "times_double NInf NInf = PInf"
| "times_double PInf NInf = NInf"
| "times_double NInf PInf = NInf"

fun divide_double :: "double \<Rightarrow> double \<Rightarrow> double" where
  "divide_double (Fin a) (Fin b) = (if b = 0 then signed_inf a else rnd (a / b))"
| "divide_double NaN _ = NaN"
| "divide_double _ NaN = NaN"
| "divide_double (Fin a) _ = Fin 0"
| "divide_double PInf (Fin b) = (if 0 \<le> b then PInf else NInf)"
| "divide_double NInf (Fin b) = (if 0 \<le> b then NInf else PInf)"
| "divide_double _ _ = NaN"

definition inverse_double :: "double \<Rightarrow> double" where
  "inverse_double x = Fin 1 div x"

fun less_eq_double :: "double \<Rightarrow> double \<Rightarrow> bool" where
  "less_eq_double (Fin a) (Fin b) = (a \<le> b)"
| "less_eq_double NaN _ = False"
| "less_eq_double _ NaN = False"
| "less_eq_double NInf _ = True"
| "less_eq_double _ PInf = True"
| "less_eq_double _ _ = False"

fun less_double :: "double \<Rightarrow> double \<Rightarrow> bool" where
  "less_double (Fin a) (Fin b) = (a < b)"
| "less_double NaN _ = False"
| "less_double _ NaN = False"
| "less_double NInf NInf = False"
| "less_double NInf _ = True"
| "less_double PInf PInf = False"
| "less_double _ PInf = True"
| "less_double _ _ = False"

instance ..

end

text \<open>\<open>operator==\<close>: false as soon as one side is NaN.\<close>

definition deq :: "double \<Rightarrow> double \<Rightarrow> bool" where
  "deq x y \<longleftrightarrow> x \<le> y \<and> y \<le> x"

text \<open>\<open>std::max(a, b)\<close> is \<open>(a < b) ? b : a\<close>, \<open>std::min(a, b)\<close> is \<open>(b < a) ? b : a\<close>.\<close>

definition std_max :: "double \<Rightarrow> double \<Rightarrow> double" where
  "std_max a b = (if a < b then b else a)"

definition std_min :: "double \<Rightarrow> double \<Rightarrow> double" where
  "std_min a b = (if b < a then b else a)"

text \<open>\<open>numeric_limits<double>::max()\<close> and \<open>lowest()\<close>.\<close>

definition double_max :: double where
  "double_max = Fin ((2 ^ 53 - 1) * 2 ^ 971)"

definition double_lowest :: double where
  "double_lowest = Fin (- ((2 ^ 53 - 1) * 2 ^ 971))"

subsection \<open>Conversions\<close>

definition double_of_int :: "int \<Rightarrow> double" where
  "double_of_int i = rnd (of_int i)"

definition trunc_rat :: "rat \<Rightarrow> int" where
  "trunc_rat q = (if 0 \<le> q then \<lfloor>q\<rfloor> else \<lceil>q\<rceil>)"

text \<open>
  \<open>static_cast\<close> to a signed integer of \<open>w\<close> bits truncates. Outside the target's range the
  standard leaves the value open; the model gives the smallest value, as \<open>cvttsd2si\<close> does.
\<close>

definition cast_int :: "nat \<Rightarrow> double \<Rightarrow> int" where
  "cast_int w x =
     (case x of
        Fin q \<Rightarrow> (let i = trunc_rat q
                  in if - (2 ^ (w - 1)) \<le> i \<and> i < 2 ^ (w - 1) then i else - (2 ^ (w - 1)))
      | _ \<Rightarrow> - (2 ^ (w - 1)))"

text \<open>\<open>std::round\<close>: to the nearest integer, halves away from zero.\<close>

definition std_round :: "double \<Rightarrow> double" where
  "std_round x =
     (case x of
        Fin q \<Rightarrow> rnd (of_int (if 0 \<le> q then \<lfloor>q + 1/2\<rfloor> else - \<lfloor>- q + 1/2\<rfloor>))
      | _ \<Rightarrow> x)"

section \<open>Rounding\<close>

subsection \<open>Binary exponents\<close>

lemma two_powi_pos [simp]: "0 < (2::rat) powi e"
  by (simp add: zero_less_power_int)

lemma two_powi_nonneg [simp]: "0 \<le> (2::rat) powi e"
  by (simp add: less_imp_le)

lemma two_powi_mono: "a \<le> b \<Longrightarrow> (2::rat) powi a \<le> 2 powi b"
  by (rule power_int_increasing) auto

lemma two_powi_less_D: "(2::rat) powi a < 2 powi b \<Longrightarrow> a < b"
  using two_powi_mono[of b a] by (cases "a < b") auto

lemma two_powi_Suc: "(2::rat) powi (e + 1) = 2 * 2 powi e"
  by (simp add: power_int_add_1)

lemma bit_len_bounds: "0 < n \<Longrightarrow> 0 < bit_len n \<and> 2 ^ (bit_len n - 1) \<le> n \<and> n < 2 ^ bit_len n"
proof (induction n rule: bit_len.induct)
  case (1 n)
  have e: "bit_len n = Suc (bit_len (n div 2))" using 1 by (simp add: bit_len.simps[of n])
  show ?case
  proof (cases "n = 1")
    case True
    then show ?thesis using e by (simp add: bit_len.simps[of 0])
  next
    case False
    let ?m = "bit_len (n div 2)"
    have "0 < n div 2" using False 1 by (simp add: pos_imp_zdiv_pos_iff)
    with 1 have ih: "2 ^ (?m - 1) \<le> n div 2" "n div 2 < 2 ^ ?m" "0 < ?m"
      by auto
    from ih(3) have "(2::int) ^ ?m = 2 * 2 ^ (?m - 1)" by (cases ?m) auto
    then show ?thesis using ih unfolding e by (simp, linarith)
  qed
qed

lemma bit_len_powi:
  assumes "0 < n"
  shows "(2::rat) powi (int (bit_len n) - 1) \<le> of_int n" and "of_int n < (2::rat) powi int (bit_len n)"
proof -
  from bit_len_bounds[OF assms] have b: "0 < bit_len n" "2 ^ (bit_len n - 1) \<le> n" "n < 2 ^ bit_len n"
    by auto
  have "rat_of_int (2 ^ (bit_len n - 1)) \<le> of_int n" using b(2) by (subst of_int_le_iff)
  with b(1) show "(2::rat) powi (int (bit_len n) - 1) \<le> of_int n"
    by (simp add: power_int_def nat_diff_distrib)
  have "rat_of_int n < of_int (2 ^ bit_len n)" using b(3) by (subst of_int_less_iff)
  then show "of_int n < (2::rat) powi int (bit_len n)" by simp
qed

lemma ilog2_bounds:
  assumes "0 < q"
  shows "2 powi ilog2 q \<le> q" and "q < 2 powi (ilog2 q + 1)"
proof -
  obtain n d where nd: "quotient_of q = (n, d)" by fastforce
  then have d: "0 < d" and q: "q = of_int n / of_int d"
    by (auto dest: quotient_of_denom_pos quotient_of_div)
  with assms have n: "0 < n" by (simp add: zero_less_divide_iff)
  define a b where "a = int (bit_len n)" and "b = int (bit_len d)"
  note A = bit_len_powi[OF n, folded a_def] and B = bit_len_powi[OF d, folded b_def]
  have dp: "(0::rat) < of_int d" using d by simp
  have "(2::rat) powi (a - b - 1) * of_int d \<le> 2 powi (a - b - 1) * 2 powi b"
    using B(2) by (intro mult_left_mono) auto
  also have "\<dots> = 2 powi (a - 1)" by (simp flip: power_int_add)
  also note A(1)
  finally have lo: "2 powi (a - b - 1) \<le> q" using dp by (simp add: q pos_le_divide_eq)
  have "(2::rat) powi a = 2 powi (a - b + 1) * 2 powi (b - 1)"
    by (simp flip: power_int_add)
  also have "\<dots> \<le> 2 powi (a - b + 1) * of_int d"
    using B(1) by (intro mult_left_mono) auto
  finally have hi: "q < 2 powi (a - b + 1)"
    using A(2) dp by (simp add: q pos_divide_less_eq)
  have "ilog2 q = (if q < 2 powi (a - b) then a - b - 1 else a - b)"
    by (simp add: ilog2_def nd a_def b_def)
  with lo hi show "2 powi ilog2 q \<le> q" and "q < 2 powi (ilog2 q + 1)" by auto
qed

lemma ilog2_mono: "0 < a \<Longrightarrow> a \<le> b \<Longrightarrow> ilog2 a \<le> ilog2 b"
proof -
  assume ab: "0 < a" "a \<le> b"
  have "(2::rat) powi ilog2 a < 2 powi (ilog2 b + 1)"
    using ilog2_bounds(1)[of a] ilog2_bounds(2)[of b] ab by linarith
  then show ?thesis using two_powi_less_D by fastforce
qed

lemma ilog2_unique: "2 powi k \<le> q \<Longrightarrow> q < 2 powi (k + 1) \<Longrightarrow> ilog2 q = k"
proof -
  assume k: "2 powi k \<le> q" "q < 2 powi (k + 1)"
  then have "0 < q" using two_powi_pos[of k] by linarith
  note b = ilog2_bounds[OF this]
  have "(2::rat) powi k < 2 powi (ilog2 q + 1)" "(2::rat) powi ilog2 q < 2 powi (k + 1)"
    using b k by linarith+
  then show ?thesis by (auto dest!: two_powi_less_D)
qed

subsection \<open>Rounding to an integer\<close>

lemma round_even_int [simp]: "round_even (of_int m) = m"
  by (simp add: round_even_def)

lemma round_even_le: "round_even x \<le> \<lfloor>x\<rfloor> + 1" and round_even_ge: "\<lfloor>x\<rfloor> \<le> round_even x"
  by (auto simp: round_even_def Let_def)

lemma round_even_mono: "x \<le> y \<Longrightarrow> round_even x \<le> round_even y"
proof (cases "\<lfloor>x\<rfloor> = \<lfloor>y\<rfloor>")
  case True
  assume "x \<le> y"
  then show ?thesis using True by (auto simp: round_even_def Let_def)
next
  case False
  assume "x \<le> y"
  then have "\<lfloor>x\<rfloor> + 1 \<le> \<lfloor>y\<rfloor>" using False floor_mono[of x y] by linarith
  then show ?thesis using round_even_le[of x] round_even_ge[of y] by linarith
qed

lemma round_even_uminus: "round_even (- x) = - round_even x"
proof (cases "x = of_int \<lfloor>x\<rfloor>")
  case True
  have "- x = of_int (- \<lfloor>x\<rfloor>)" using True by simp
  then show ?thesis using True round_even_int by metis
next
  case False
  have "of_int \<lfloor>x\<rfloor> \<le> x" by simp
  with False have "of_int \<lfloor>x\<rfloor> < x" by linarith
  moreover have "x < of_int \<lfloor>x\<rfloor> + 1" by linarith
  ultimately have f: "\<lfloor>- x\<rfloor> = - \<lfloor>x\<rfloor> - 1" by (intro floor_unique) auto
  show ?thesis unfolding round_even_def Let_def f by (auto simp: field_simps)
qed


lemma abs_ulp_exp [simp]: "ulp_exp (- q) = ulp_exp q"
  by (simp add: ulp_exp_def)

lemma rnd_val_0 [simp]: "rnd_val 0 = 0"
  by (simp add: rnd_val_def)

lemma rnd_val_uminus: "rnd_val (- q) = - rnd_val q"
proof -
  have "round_even (- q / 2 powi ulp_exp q) = - round_even (q / 2 powi ulp_exp q)"
    using round_even_uminus[of "q / 2 powi ulp_exp q"] by simp
  then show ?thesis by (simp add: rnd_val_def)
qed

lemma rnd_val_nonneg: "0 \<le> q \<Longrightarrow> 0 \<le> rnd_val q"
proof -
  assume "0 \<le> q"
  then have "round_even 0 \<le> round_even (q / 2 powi ulp_exp q)"
    by (intro round_even_mono) simp
  then show ?thesis using round_even_int[of 0] by (simp add: rnd_val_def)
qed

lemma round_even_nat_powi: "0 \<le> k \<Longrightarrow> rat_of_int (round_even (2 powi k)) = 2 powi k"
proof -
  assume "0 \<le> k"
  then have "(2::rat) powi k = of_int (2 ^ nat k)" by (simp add: power_int_def)
  then show ?thesis by (metis round_even_int)
qed

lemma rnd_val_le_powi:
  assumes "0 < q" "q \<le> 2 powi k" "ulp_exp q \<le> k"
  shows "rnd_val q \<le> 2 powi k"
proof -
  have "q / 2 powi ulp_exp q \<le> 2 powi (k - ulp_exp q)"
    using assms(2) by (simp add: power_int_diff divide_right_mono)
  then have "rat_of_int (round_even (q / 2 powi ulp_exp q)) \<le> of_int (round_even (2 powi (k - ulp_exp q)))"
    by (subst of_int_le_iff) (rule round_even_mono)
  also have "\<dots> = 2 powi (k - ulp_exp q)"
    using assms(3) by (simp add: round_even_nat_powi)
  finally have "rnd_val q \<le> 2 powi (k - ulp_exp q) * 2 powi ulp_exp q"
    using assms(1) by (simp add: rnd_val_def mult_right_mono)
  then show ?thesis by (simp flip: power_int_add)
qed

lemma rnd_val_ge_powi:
  assumes "0 < q" "2 powi k \<le> q" "ulp_exp q \<le> k"
  shows "2 powi k \<le> rnd_val q"
proof -
  have "2 powi (k - ulp_exp q) \<le> q / 2 powi ulp_exp q"
    using assms(2) by (simp add: power_int_diff divide_right_mono)
  then have "rat_of_int (round_even (2 powi (k - ulp_exp q))) \<le> of_int (round_even (q / 2 powi ulp_exp q))"
    by (subst of_int_le_iff) (rule round_even_mono)
  then have "2 powi (k - ulp_exp q) \<le> rat_of_int (round_even (q / 2 powi ulp_exp q))"
    using assms(3) by (simp add: round_even_nat_powi)
  then have "2 powi (k - ulp_exp q) * 2 powi ulp_exp q \<le> rnd_val q"
    using assms(1) by (simp add: rnd_val_def mult_right_mono)
  then show ?thesis by (simp flip: power_int_add)
qed

lemma ulp_exp_mono: "0 < a \<Longrightarrow> a \<le> b \<Longrightarrow> ulp_exp a \<le> ulp_exp b"
  using ilog2_mono[of a b] by (simp add: ulp_exp_def max_def)

lemma rnd_val_mono_pos:
  assumes "0 < a" "a \<le> b"
  shows "rnd_val a \<le> rnd_val b"
proof (cases "ulp_exp a = ulp_exp b")
  case True
  have "round_even (a / 2 powi ulp_exp b) \<le> round_even (b / 2 powi ulp_exp b)"
    using assms by (intro round_even_mono divide_right_mono) auto
  then show ?thesis using assms True by (simp add: rnd_val_def mult_right_mono)
next
  case False
  with ulp_exp_mono[OF assms] have l: "ulp_exp a < ulp_exp b" by simp
  have b0: "0 < b" using assms by simp
  from l assms b0 have k: "ilog2 a + 1 \<le> ilog2 b" "ulp_exp b = ilog2 b - 52"
    by (auto simp: ulp_exp_def max_def split: if_splits)
  define k where "k = ilog2 b"
  have kb: "2 powi k \<le> b" unfolding k_def using ilog2_bounds(1)[OF b0] .
  have ka: "a \<le> 2 powi k"
    using ilog2_bounds(2)[OF assms(1)] two_powi_mono[OF k(1)] by (simp add: k_def)
  have "rnd_val a \<le> 2 powi k"
    using assms(1) ka by (rule rnd_val_le_powi) (use l k in \<open>simp add: k_def\<close>)
  also have "\<dots> \<le> rnd_val b"
    using b0 kb by (rule rnd_val_ge_powi) (use k in \<open>simp add: k_def\<close>)
  finally show ?thesis .
qed

lemma rnd_val_mono: "a \<le> b \<Longrightarrow> rnd_val a \<le> rnd_val b"
proof -
  assume ab: "a \<le> b"
  consider "0 < a" | "a \<le> 0" "0 \<le> b" | "b < 0" by linarith
  then show ?thesis
  proof cases
    case 1
    then show ?thesis using ab by (rule rnd_val_mono_pos)
  next
    case 2
    then show ?thesis
      using rnd_val_nonneg[of b] rnd_val_nonneg[of "- a"] by (simp add: rnd_val_uminus)
  next
    case 3
    then show ?thesis using rnd_val_mono_pos[of "- b" "- a"] ab by (simp add: rnd_val_uminus)
  qed
qed

subsection \<open>Exactly representable values\<close>

lemma multiple_of_ulp:
  assumes q: "q = of_int m * 2 powi e" and m: "\<bar>m\<bar> \<le> 2 ^ 53" "m \<noteq> 0" and e: "- 1074 \<le> e"
  shows "\<exists>j::int. q = of_int j * 2 powi ulp_exp q"
proof -
  have aq: "\<bar>q\<bar> = of_int \<bar>m\<bar> * 2 powi e" by (simp add: q abs_mult)
  with m(2) have q0: "0 < \<bar>q\<bar>" by simp
  show ?thesis
  proof (cases "\<bar>m\<bar> = 2 ^ 53")
    case True
    have "\<bar>q\<bar> = 2 powi (e + 53)" by (simp add: aq True power_int_add)
    then have "ilog2 \<bar>q\<bar> = e + 53"
      using two_powi_Suc[of "e + 53"] two_powi_pos[of "e + 53"] by (intro ilog2_unique) auto
    then have u: "ulp_exp q = e + 1" using e by (simp add: ulp_exp_def)
    have "m = sgn m * 2 ^ 53" using True by (metis mult_sgn_abs mult.commute)
    then have "rat_of_int m = of_int (sgn m) * 2 ^ 53" by (metis of_int_mult of_int_numeral of_int_power)
    then have "q = of_int (sgn m * 2 ^ 52) * 2 powi (e + 1)" by (simp add: q power_int_add_1)
    with u show ?thesis by metis
  next
    case False
    with m have "\<bar>m\<bar> < 2 ^ 53" by simp
    then have "rat_of_int \<bar>m\<bar> < of_int (2 ^ 53)" by (subst of_int_less_iff)
    then have "\<bar>q\<bar> < 2 powi (e + 53)" by (simp add: aq power_int_add)
    then have "(2::rat) powi ilog2 \<bar>q\<bar> < 2 powi (e + 53)" using ilog2_bounds(1)[OF q0] by linarith
    then have "ilog2 \<bar>q\<bar> < e + 53" by (rule two_powi_less_D)
    then have "ulp_exp q \<le> e" using e by (simp add: ulp_exp_def)
    then have "(2::rat) ^ nat (e - ulp_exp q) * 2 powi ulp_exp q = 2 powi e"
      by (simp add: power_int_nonneg_exp[symmetric] flip: power_int_add)
    then have "q = of_int (m * 2 ^ nat (e - ulp_exp q)) * 2 powi ulp_exp q" by (simp add: q)
    then show ?thesis by blast
  qed
qed

lemma rnd_val_exact:
  assumes "q = of_int m * 2 powi e" "\<bar>m\<bar> \<le> 2 ^ 53" "- 1074 \<le> e"
  shows "rnd_val q = q"
proof (cases "m = 0")
  case False
  then obtain j where j: "q = of_int j * 2 powi ulp_exp q" using multiple_of_ulp assms by blast
  then have "q / 2 powi ulp_exp q = of_int j" by (simp add: field_simps)
  then show ?thesis using j by (simp add: rnd_val_def)
qed (simp add: assms(1))

lemma rnd_val_form: "\<exists>m e. rnd_val q = of_int m * 2 powi e \<and> \<bar>m\<bar> \<le> 2 ^ 53 \<and> - 1074 \<le> e"
proof (cases "q = 0")
  case True
  then show ?thesis by (intro exI[of _ 0]) auto
next
  case False
  then have q0: "0 < \<bar>q\<bar>" by simp
  let ?e = "ulp_exp q" and ?m = "round_even (q / 2 powi ulp_exp q)"
  have "\<bar>q\<bar> \<le> 2 powi (?e + 53)"
  proof -
    have "ilog2 \<bar>q\<bar> + 1 \<le> ?e + 53" by (simp add: ulp_exp_def)
    then show ?thesis using ilog2_bounds(2)[OF q0] two_powi_mono by (meson less_le_trans less_imp_le)
  qed
  then have "\<bar>q / 2 powi ?e\<bar> \<le> of_int (2 ^ 53)"
    by (simp add: abs_divide power_int_add pos_divide_le_eq mult.commute)
  then have "q / 2 powi ?e \<le> of_int (2 ^ 53)" "of_int (- (2 ^ 53)) \<le> q / 2 powi ?e"
    unfolding abs_le_iff of_int_minus by linarith+
  then have "?m \<le> 2 ^ 53" "- (2 ^ 53) \<le> ?m"
    using round_even_mono round_even_int by metis+
  then have "\<bar>?m\<bar> \<le> 2 ^ 53" by simp
  moreover have "rnd_val q = of_int ?m * 2 powi ?e" using False by (simp add: rnd_val_def)
  moreover have "- 1074 \<le> ?e" by (simp add: ulp_exp_def)
  ultimately show ?thesis by blast
qed

lemma rnd_val_idem [simp]: "rnd_val (rnd_val q) = rnd_val q"
  using rnd_val_form[of q] rnd_val_exact by blast

text \<open>The rounding of a number inside a binade is the nearest multiple of the last place.\<close>

lemma rnd_val_nearest:
  assumes k: "2 powi k \<le> q" "q < 2 powi (k + 1)" "- 1022 \<le> k"
    and m: "\<bar>q / 2 powi (k - 52) - of_int m\<bar> < 1/2"
  shows "rnd_val q = of_int m * 2 powi (k - 52)"
proof -
  have q: "0 < q" using two_powi_pos[of k] k(1) by linarith
  then have u: "ulp_exp q = k - 52" using ilog2_unique[OF k(1,2)] k(3) by (simp add: ulp_exp_def)
  have "round_even (q / 2 powi (k - 52)) = m"
  proof (cases "of_int m \<le> q / 2 powi (k - 52)")
    case True
    with m have "\<lfloor>q / 2 powi (k - 52)\<rfloor> = m" by (intro floor_unique) linarith+
    with True m show ?thesis by (simp add: round_even_def)
  next
    case False
    with m have "\<lfloor>q / 2 powi (k - 52)\<rfloor> = m - 1" by (intro floor_unique) (simp; linarith)+
    with False m show ?thesis by (simp add: round_even_def)
  qed
  with q u show ?thesis by (simp add: rnd_val_def)
qed

subsection \<open>The rounded double\<close>

lemma double_range_pos: "(2::rat) ^ 53 < 2 powi 1024"
  unfolding power_int_numeral by (rule power_strict_increasing) auto

lemma rnd_eq_Fin: "rnd_val q = r \<Longrightarrow> \<bar>r\<bar> < 2 powi 1024 \<Longrightarrow> rnd q = Fin r"
  unfolding rnd_def Let_def abs_less_iff by auto

lemma round_even_near: "of_int m - 1/2 < x \<Longrightarrow> x < of_int m + 1/2 \<Longrightarrow> round_even x = m"
proof -
  assume x: "of_int m - 1/2 < x" "x < of_int m + 1/2"
  show ?thesis
  proof (cases "x < of_int m")
    case True
    then have "\<lfloor>x\<rfloor> = m - 1" using x by (intro floor_unique) auto
    then show ?thesis using x by (simp add: round_even_def Let_def)
  next
    case False
    then have "\<lfloor>x\<rfloor> = m" using x by (intro floor_unique) auto
    then show ?thesis using x by (simp add: round_even_def Let_def)
  qed
qed

text \<open>The nearest double of a normal number, from a certificate.\<close>

lemma rnd_normal:
  assumes "2 ^ 52 * 2 powi e \<le> q" "q < 2 ^ 53 * 2 powi e" "- 1074 \<le> e" "e < 971"
    and "of_int m - 1/2 < q / 2 powi e" "q / 2 powi e < of_int m + 1/2"
  shows "rnd q = Fin (of_int m * 2 powi e)"
proof (rule rnd_eq_Fin)
  have q: "0 < q" using assms(1) two_powi_pos[of e] by (meson less_le_trans mult_pos_pos zero_less_power zero_less_numeral)
  have "ilog2 q = e + 52"
    using assms(1,2) by (intro ilog2_unique) (simp_all add: power_int_add mult.commute add.assoc)
  then have u: "ulp_exp q = e" using q assms(3) by (simp add: ulp_exp_def)
  then show v: "rnd_val q = of_int m * 2 powi e" using q round_even_near[OF assms(5,6)] by (simp add: rnd_val_def)
  have "q \<le> of_int (2 ^ 53) * 2 powi e" using assms(2) by simp
  then have "rnd_val q \<le> of_int (2 ^ 53) * 2 powi e"
    using rnd_val_mono[of q "of_int (2 ^ 53) * 2 powi e"] rnd_val_exact[OF refl, of "2 ^ 53" e] assms(3) by simp
  also have "\<dots> = 2 powi (e + 53)" by (simp add: power_int_add)
  also have "\<dots> < 2 powi 1024" using assms(4) by (intro power_int_strict_increasing) simp_all
  finally show "\<bar>of_int m * 2 powi e :: rat\<bar> < 2 powi 1024" using v rnd_val_nonneg[of q] q by simp
qed

lemma rnd_0 [simp]: "rnd 0 = Fin 0"
  by (rule rnd_eq_Fin) auto

lemma rnd_is_double [simp]: "is_double (rnd q)"
  by (auto simp: rnd_def is_double_def Let_def)

lemma rnd_not_NaN [simp]: "rnd q \<noteq> NaN"
  by (auto simp: rnd_def Let_def)

lemma rnd_uminus: "rnd (- q) = - rnd q"
  using two_powi_pos[of 1024] by (auto simp: rnd_def Let_def rnd_val_uminus)

lemma rnd_mono: "a \<le> b \<Longrightarrow> rnd a \<le> rnd b"
  using rnd_val_mono[of a b] by (auto simp: rnd_def Let_def)

lemma rnd_ge: "is_double (Fin a) \<Longrightarrow> a \<le> q \<Longrightarrow> Fin a \<le> rnd q"
  using rnd_mono[of a q] by (simp add: is_double_def)

lemma rnd_le: "is_double (Fin b) \<Longrightarrow> q \<le> b \<Longrightarrow> rnd q \<le> Fin b"
  using rnd_mono[of q b] by (simp add: is_double_def)

lemma rnd_int: "\<bar>m\<bar> \<le> 2 ^ 53 \<Longrightarrow> rnd (of_int m) = Fin (of_int m)"
proof -
  assume m: "\<bar>m\<bar> \<le> 2 ^ 53"
  then have "\<bar>rat_of_int m\<bar> \<le> 2 ^ 53"
    by (metis of_int_abs of_int_le_iff of_int_numeral of_int_power)
  then have "\<bar>rat_of_int m\<bar> < 2 powi 1024" using double_range_pos by (rule order_le_less_trans)
  then show ?thesis
    using rnd_val_exact[of "of_int m" m 0] m by (intro rnd_eq_Fin) auto
qed

lemma rnd_half_int: "\<bar>m\<bar> \<le> 2 ^ 53 \<Longrightarrow> rnd (of_int m / 2) = Fin (of_int m / 2)"
proof -
  assume m: "\<bar>m\<bar> \<le> 2 ^ 53"
  have "\<bar>rat_of_int m\<bar> \<le> 2 ^ 53"
    using m by (metis of_int_abs of_int_le_iff of_int_numeral of_int_power)
  then have "\<bar>rat_of_int m / 2\<bar> < 2 powi 1024" using double_range_pos by (simp add: abs_divide)
  then show ?thesis
    using rnd_val_exact[of "of_int m / 2" m "- 1"] m
    by (intro rnd_eq_Fin) (auto simp: power_int_minus_divide)
qed

lemma rnd_numeral [simp]: "numeral k \<le> (2 ^ 53 :: int) \<Longrightarrow> rnd (numeral k) = Fin (numeral k)"
  using rnd_int[of "numeral k"] by simp

lemma rnd_neg_numeral [simp]:
  "numeral k \<le> (2 ^ 53 :: int) \<Longrightarrow> rnd (- numeral k) = Fin (- numeral k)"
  by (simp add: rnd_uminus)

lemma rnd_1 [simp]: "rnd 1 = Fin 1" and rnd_neg_1 [simp]: "rnd (- 1) = Fin (- 1)"
  using rnd_int[of 1] rnd_int[of "- 1"] by simp_all

lemma rnd_half [simp]: "rnd (1/2) = Fin (1/2)"
  using rnd_half_int[of 1] by simp

lemma rnd_numeral_half [simp]:
  "numeral k \<le> (2 ^ 53 :: int) \<Longrightarrow> rnd (numeral k / 2) = Fin (numeral k / 2)"
  using rnd_half_int[of "numeral k"] by simp

lemma is_double_int [simp]: "\<bar>m\<bar> \<le> 2 ^ 53 \<Longrightarrow> is_double (Fin (of_int m))"
  by (simp add: is_double_def rnd_int)

lemma is_double_0 [simp]: "is_double (Fin 0)" and is_double_1 [simp]: "is_double (Fin 1)"
  and is_double_neg_1 [simp]: "is_double (Fin (- 1))"
  by (simp_all add: is_double_def)

lemma is_double_specials [simp]: "is_double NaN" "is_double PInf" "is_double NInf"
  by (simp_all add: is_double_def)

lemma is_double_rnd: "is_double (Fin q) \<Longrightarrow> rnd q = Fin q"
  by (simp add: is_double_def)

lemma is_double_powi:
  assumes "- 1074 \<le> e" "e < 1024"
  shows "is_double (Fin (2 powi e))"
proof -
  have "(2::rat) powi e < 2 powi 1024" using assms(2) by (intro power_int_strict_increasing) auto
  then show ?thesis
    using rnd_val_exact[of "2 powi e" 1 e] assms(1) by (simp add: is_double_def rnd_eq_Fin)
qed

lemma rnd_pos:
  assumes "1 \<le> q * 2 ^ n" "n \<le> 1074"
  shows "Fin 0 < rnd q"
proof -
  have p: "(2::rat) powi (- int n) * 2 ^ n = 1"
    by (simp add: power_int_minus)
  have "2 powi (- int n) \<le> q"
    by (rule mult_right_le_imp_le[of _ "2 ^ n"]) (use assms(1) p in auto)
  then have "Fin (2 powi (- int n)) \<le> rnd q"
    using assms(2) by (intro rnd_ge is_double_powi) auto
  then show ?thesis using order_less_le_trans[OF two_powi_pos] by (cases "rnd q") auto
qed

text \<open>The tolerance \<open>1e-9\<close> the code compares with.\<close>

lemma lit_nano: "Fin 0 < lit (1/10^9)" "lit (1/10^9) \<le> Fin 1"
  by (rule rnd_pos[of _ 30]) (auto intro: rnd_le)

lemma is_double_uminus [simp]: "is_double (- x) = is_double x"
proof (cases x)
  case (Fin q)
  have "- rnd q = Fin (- q) \<longleftrightarrow> rnd q = Fin q" by (cases "rnd q") auto
  then show ?thesis by (simp add: Fin is_double_def rnd_uminus)
qed auto

section \<open>Order\<close>

text \<open>
  The order of the non-NaN values is total; with NaN it stays transitive, and a strict
  comparison that holds shows that neither side is NaN.
\<close>

lemma double_less_imp_le: "(x::double) < y \<Longrightarrow> x \<le> y"
  by (cases x; cases y) auto

lemma double_le_trans [trans]: "(x::double) \<le> y \<Longrightarrow> y \<le> z \<Longrightarrow> x \<le> z"
  by (cases x; cases y; cases z) auto

lemma double_less_le_trans [trans]: "(x::double) < y \<Longrightarrow> y \<le> z \<Longrightarrow> x < z"
  by (cases x; cases y; cases z) auto

lemma double_le_less_trans [trans]: "(x::double) \<le> y \<Longrightarrow> y < z \<Longrightarrow> x < z"
  by (cases x; cases y; cases z) auto

lemma double_less_irrefl [simp]: "\<not> (x::double) < x"
  by (cases x) auto

lemma double_le_refl [simp]: "(x::double) \<le> x \<longleftrightarrow> x \<noteq> NaN"
  by (cases x) auto

lemma double_less_asym: "(x::double) < y \<Longrightarrow> \<not> y < x"
  by (cases x; cases y) auto

lemma double_not_less: "(x::double) \<noteq> NaN \<Longrightarrow> y \<noteq> NaN \<Longrightarrow> \<not> x < y \<longleftrightarrow> y \<le> x"
  by (cases x; cases y) auto

lemma double_not_le: "(x::double) \<noteq> NaN \<Longrightarrow> y \<noteq> NaN \<Longrightarrow> \<not> x \<le> y \<longleftrightarrow> y < x"
  by (cases x; cases y) auto

lemma double_le_not_NaN: "(x::double) \<le> y \<Longrightarrow> x \<noteq> NaN \<and> y \<noteq> NaN"
  by (cases x; cases y) auto

lemma double_less_not_NaN: "(x::double) < y \<Longrightarrow> x \<noteq> NaN \<and> y \<noteq> NaN"
  by (cases x; cases y) auto

lemma NaN_compare [simp]:
  "\<not> NaN < x" "\<not> x < NaN" "\<not> NaN \<le> x" "\<not> x \<le> NaN" "\<not> deq NaN x" "\<not> deq x NaN"
  by (cases x; simp add: deq_def)+

lemma deq_iff: "deq x y \<longleftrightarrow> x = y \<and> x \<noteq> NaN"
  by (cases x; cases y) (auto simp: deq_def)

lemma double_uminus_le: "(- x :: double) \<le> - y \<longleftrightarrow> y \<le> x"
  by (cases x; cases y) auto

lemma double_uminus_uminus [simp]: "- (- x) = (x::double)"
  by (cases x) auto

lemma std_max_ge: "x \<noteq> NaN \<Longrightarrow> y \<noteq> NaN \<Longrightarrow> x \<le> std_max x y \<and> y \<le> std_max x y"
  by (cases x; cases y) (auto simp: std_max_def)

lemma std_min_le: "x \<noteq> NaN \<Longrightarrow> y \<noteq> NaN \<Longrightarrow> std_min x y \<le> x \<and> std_min x y \<le> y"
  by (cases x; cases y) (auto simp: std_min_def)

section \<open>Arithmetic\<close>

lemma is_double_plus [simp]: "is_double (x + y)"
  by (cases x; cases y) auto

lemma is_double_minus [simp]: "is_double (x - y)"
  by (simp add: minus_double_def)

lemma is_double_signed_inf [simp]: "is_double (signed_inf s)"
  by (simp add: signed_inf_def)

lemma is_double_times [simp]: "is_double (x * y)"
  by (cases x; cases y) auto

lemma is_double_divide [simp]: "is_double (x / y :: double)"
  by (cases x; cases y) auto

lemma Fin_minus [simp]: "Fin a - Fin b = rnd (a - b)"
  by (simp add: minus_double_def)

lemma NaN_arith [simp]: "NaN + x = NaN" "x + NaN = NaN" "NaN - x = NaN" "x - NaN = NaN"
  "NaN * x = NaN" "x * NaN = NaN" "NaN / x = NaN" "x / NaN = NaN"
  by (cases x; simp add: minus_double_def)+

text \<open>Sums and products of non-negative numbers are non-negative, and sums do not shrink.\<close>

lemma double_add_nonneg:
  assumes "Fin 0 \<le> x" "Fin 0 \<le> y"
  shows "Fin 0 \<le> x + y"
  using assms by (cases x; cases y) (auto intro: rnd_ge)

lemma double_add_increasing:
  assumes "x \<le> z" "Fin 0 \<le> y" "Fin 0 \<le> z" "is_double z"
  shows "x \<le> z + y" and "x \<le> y + z"
proof -
  have "z \<le> z + y \<and> z \<le> y + z"
    using assms by (cases z; cases y) (auto intro: rnd_ge simp: is_double_def)
  with assms(1) show "x \<le> z + y" and "x \<le> y + z" by (auto intro: double_le_trans)
qed

lemma double_mult_nonneg:
  assumes "Fin 0 \<le> x" "Fin 0 \<le> y" "x * y \<noteq> NaN"
  shows "Fin 0 \<le> x * y"
  using assms by (cases x; cases y) (auto intro: rnd_ge simp: signed_inf_def)

text \<open>A quotient whose numerator is bounded by a positive finite denominator is at most one.\<close>

lemma double_ratio_bounded:
  assumes "Fin (- t) \<le> x" "x \<le> Fin t" "0 < t"
  shows "Fin (- 1) \<le> x / Fin t" and "x / Fin t \<le> Fin 1"
proof -
  obtain q where q: "x = Fin q" "- t \<le> q" "q \<le> t"
    using assms(1,2) by (cases x) auto
  then have "- 1 \<le> q / t" "q / t \<le> 1"
    using assms(3) by (auto simp: pos_le_divide_eq pos_divide_le_eq)
  with q assms(3) show "Fin (- 1) \<le> x / Fin t" and "x / Fin t \<le> Fin 1"
    by (auto intro: rnd_ge rnd_le)
qed

section \<open>Integers\<close>

lemma double_of_int_exact: "\<bar>i\<bar> \<le> 2 ^ 53 \<Longrightarrow> double_of_int i = Fin (of_int i)"
  by (simp add: double_of_int_def rnd_int)

lemma double_of_int_mono: "i \<le> j \<Longrightarrow> double_of_int i \<le> double_of_int j"
  by (simp add: double_of_int_def rnd_mono)

lemma double_of_int_not_NaN [simp]: "double_of_int i \<noteq> NaN"
  by (simp add: double_of_int_def)

lemma is_double_of_int [simp]: "is_double (double_of_int i)"
  by (simp add: double_of_int_def)

lemma cast_int_Fin_int: "- (2 ^ (w - 1)) \<le> i \<Longrightarrow> i < 2 ^ (w - 1) \<Longrightarrow> cast_int w (Fin (of_int i)) = i"
  by (simp add: cast_int_def trunc_rat_def)

lemma cast_int_range:
  assumes "0 < w"
  shows "- (2 ^ (w - 1)) \<le> cast_int w x \<and> cast_int w x < 2 ^ (w - 1)"
  by (auto simp: cast_int_def Let_def split: double.split)

end
