(* ===== verification/Interfaces.thy ===== *)
theory Interfaces
  imports Doubles
begin

text \<open>
  The shared types of \<open>src/core/interfaces.hpp\<close>: error codes and results, instruments,
  market data, orders, signals and order requests. \<open>Result<T>\<close>, which is
  \<open>std::expected<T, Error>\<close>, is the sum \<open>error + 'a\<close> with \<open>Inl\<close> for the error.
\<close>

section \<open>Errors\<close>

datatype error_code =
    ECOk
  | ConnectionFailed | StreamDisconnected | Timeout | RpcError
  | OrderRejected | InsufficientMargin | InvalidPrice | InvalidQuantity
  | RiskLimitExceeded | DailyLossLimitHit
  | InvalidArgument | NotImplemented | InternalError

record error =
  err_code :: error_code
  err_message :: string

type_synonym 'a result = "error + 'a"

definition error_ok :: error where
  "error_ok = \<lparr>err_code = ECOk, err_message = []\<rparr>"

definition is_ok :: "error \<Rightarrow> bool" where
  "is_ok e \<longleftrightarrow> err_code e = ECOk"

abbreviation mk_error :: "error_code \<Rightarrow> string \<Rightarrow> error" where
  "mk_error c m \<equiv> \<lparr>err_code = c, err_message = m\<rparr>"

section \<open>Instruments and market data\<close>

record symbol =
  security_code :: string
  security_board :: string

definition symbol_to_string :: "symbol \<Rightarrow> string" where
  "symbol_to_string s = security_code s @ ''@'' @ security_board s"

abbreviation empty_symbol :: symbol where
  "empty_symbol \<equiv> \<lparr>security_code = [], security_board = []\<rparr>"

record quote =
  q_symbol :: symbol
  q_bid :: double
  q_ask :: double
  q_last :: double
  q_volume :: int
  q_ts :: time_point

record bar =
  bar_symbol :: symbol
  timeframe :: string
  bar_open :: double
  bar_high :: double
  bar_low :: double
  bar_close :: double
  bar_volume :: int
  bar_ts :: time_point
  bar_date :: string

record order_book_row =
  row_price :: double
  row_quantity :: int

record order_book =
  book_symbol :: symbol
  book_asks :: "order_book_row list"
  book_bids :: "order_book_row list"
  book_ts :: time_point

section \<open>Orders, signals, requests\<close>

datatype order_side = Buy | Sell

datatype order_status = Pending | PartialFill | Filled | Cancelled | Rejected

datatype order_type = Market | Limit

record order_update =
  order_no :: int
  transaction_id :: int
  upd_symbol :: symbol
  upd_client_id :: string
  upd_side :: order_side
  upd_status :: order_status
  upd_type :: order_type
  upd_price :: double
  upd_qty_total :: int
  upd_qty_filled :: int
  upd_message :: string
  upd_ts :: time_point

datatype direction = DirBuy | DirSell | DirClose | DirNone

record signal =
  sig_symbol :: symbol
  sig_direction :: direction
  sig_order_type :: order_type
  sig_price :: double
  sig_quantity :: int
  sig_reason :: string

record order_request =
  req_client_id :: string
  req_symbol :: symbol
  req_side :: order_side
  req_type :: order_type
  req_price :: double
  req_quantity :: int

text \<open>The textual form of a symbol determines it as long as the code holds no \<open>@\<close>.\<close>

lemma takeWhile_before:
  "c \<notin> set xs \<Longrightarrow> takeWhile (\<lambda>d. d \<noteq> c) (xs @ c # ys) = xs"
  by (induction xs) auto

lemma symbol_to_string_inj:
  assumes "symbol_to_string s = symbol_to_string t"
    and "CHR ''@'' \<notin> set (security_code s)" "CHR ''@'' \<notin> set (security_code t)"
  shows "s = t"
proof -
  have e: "security_code s @ CHR ''@'' # security_board s
         = security_code t @ CHR ''@'' # security_board t"
    using assms(1) by (simp add: symbol_to_string_def)
  have "security_code s = security_code t"
    using arg_cong[OF e, of "takeWhile (\<lambda>d. d \<noteq> CHR ''@'')"] assms(2,3)
    by (simp add: takeWhile_before)
  with e show ?thesis by simp
qed

end
