(* ===== verification/Spsc_Queue.thy ===== *)
theory Spsc_Queue
  imports Interfaces
begin

text \<open>
  The lock-free single-producer single-consumer queues: \<open>src/core/spsc_queue.hpp\<close>
  (\<open>SpscQueue<T, N>\<close>, the strategy runner's queue) and \<open>src/core/event_bus.hpp\<close>
  (\<open>SPSCQueue<Capacity>\<close> over \<open>MarketEvent\<close>).

  Three levels. The operations as the code has them, on \<open>64\<close>-bit indices with mask arithmetic.
  The contract \<open>bounded_fifo\<close>, a queue of at most \<open>N - 1\<close> elements seen as a list, which both
  classes are shown to implement. And the individual memory accesses of \<open>push\<close> and \<open>pop\<close> as
  an interleaving step relation, where one producer and one consumer never lose, repeat or
  reorder an element and never touch the same slot, while a second producer breaks the queue.
\<close>

unbundle bit_operations_syntax

section \<open>The queue operations\<close>

text \<open>The template parameter \<open>N\<close> is the length of the buffer.\<close>

record 'a spsc_queue =
  head :: size_t
  tail :: size_t
  buffer :: "'a list"

definition kMask :: "'a spsc_queue \<Rightarrow> size_t" where
  "kMask q = of_nat (length (buffer q)) - 1"

definition push :: "'a spsc_queue \<Rightarrow> 'a \<Rightarrow> bool \<times> 'a spsc_queue" where
  "push q item =
     (let h = head q; next = (h + 1) AND kMask q
      in if next = tail q then (False, q)
         else (True, q\<lparr>buffer := (buffer q)[unat h := item], head := next\<rparr>))"

text \<open>The moved-from slot keeps a valid but unspecified value, here the old one; with one producer it is
  not read again.\<close>

definition pop :: "'a spsc_queue \<Rightarrow> 'a option \<times> 'a spsc_queue" where
  "pop q =
     (let t = tail q
      in if t = head q then (None, q)
         else (Some (buffer q ! unat t), q\<lparr>tail := (t + 1) AND kMask q\<rparr>))"

definition empty_q :: "'a spsc_queue \<Rightarrow> bool" where
  "empty_q q \<longleftrightarrow> head q = tail q"

definition size_q :: "'a spsc_queue \<Rightarrow> size_t" where
  "size_q q = (head q - tail q) AND kMask q"

definition new_queue :: "'a \<Rightarrow> nat \<Rightarrow> 'a spsc_queue" where
  "new_queue d n = \<lparr>head = 0, tail = 0, buffer = replicate n d\<rparr>"

section \<open>The event bus\<close>

datatype market_event =
    EvQuote quote
  | EvBar bar
  | EvOrderBook order_book
  | EvOrderUpdate order_update

record event_bus =
  bus_head :: size_t
  bus_tail :: size_t
  bus_buffer :: "market_event list"

definition bus_kMask :: "event_bus \<Rightarrow> size_t" where
  "bus_kMask b = of_nat (length (bus_buffer b)) - 1"

definition bus_push :: "event_bus \<Rightarrow> market_event \<Rightarrow> bool \<times> event_bus" where
  "bus_push b event =
     (let h = bus_head b; next = (h + 1) AND bus_kMask b
      in if next = bus_tail b then (False, b)
         else (True, b\<lparr>bus_buffer := (bus_buffer b)[unat h := event], bus_head := next\<rparr>))"

definition bus_pop :: "event_bus \<Rightarrow> market_event option \<times> event_bus" where
  "bus_pop b =
     (let t = bus_tail b
      in if t = bus_head b then (None, b)
         else (Some (bus_buffer b ! unat t), b\<lparr>bus_tail := (t + 1) AND bus_kMask b\<rparr>))"

definition bus_empty :: "event_bus \<Rightarrow> bool" where
  "bus_empty b \<longleftrightarrow> bus_tail b = bus_head b"

section \<open>Well-formed queues and their contents\<close>

text \<open>The class constraint (\<open>N\<close> a power of two, at least 2) and the index bounds.\<close>

definition wf_queue :: "'a spsc_queue \<Rightarrow> bool" where
  "wf_queue q \<longleftrightarrow>
     (\<exists>k. 1 \<le> k \<and> k < 64 \<and> length (buffer q) = 2 ^ k)
     \<and> unat (head q) < length (buffer q) \<and> unat (tail q) < length (buffer q)"

definition contents :: "'a spsc_queue \<Rightarrow> 'a list" where
  "contents q = ring_slice (buffer q) (unat (tail q)) (unat (size_q q))"

definition as_queue :: "event_bus \<Rightarrow> market_event spsc_queue" where
  "as_queue b = \<lparr>head = bus_head b, tail = bus_tail b, buffer = bus_buffer b\<rparr>"

section \<open>Mask arithmetic\<close>

lemma and_mask_unat:
  fixes w :: size_t
  assumes "k < 64"
  shows "unat (w AND (of_nat (2 ^ k) - 1)) = unat w mod 2 ^ k"
proof -
  have m: "(of_nat (2 ^ k) - 1 :: size_t) = mask k"
    by (simp add: mask_eq_exp_minus_1)
  show ?thesis unfolding m by (simp flip: take_bit_eq_mask add: unsigned_take_bit_eq take_bit_nat_def)
qed

lemma next_index:
  fixes h :: size_t
  assumes "k < 64" "unat h < 2 ^ k"
  shows "unat ((h + 1) AND (of_nat (2 ^ k) - 1)) = (unat h + 1) mod 2 ^ k"
proof -
  have "(2::nat) ^ k \<le> 2 ^ 63" using assms(1) by (intro power_increasing) auto
  then have "unat h + 1 < 2 ^ 64" using assms(2) by simp
  then have "unat (h + 1) = unat h + 1" by (simp add: unat_word_ariths)
  then show ?thesis using assms(1) by (simp add: and_mask_unat del: of_nat_power)
qed

lemma used_index:
  fixes h t :: size_t
  assumes "k < 64" "unat h < 2 ^ k" "unat t < 2 ^ k"
  shows "(unat t + unat ((h - t) AND (of_nat (2 ^ k) - 1))) mod 2 ^ k = unat h"
proof -
  have d: "(2::nat) ^ k dvd 2 ^ 64" using assms(1) by (intro le_imp_power_dvd) simp
  have e: "(unat t + unat (h - t)) mod 2 ^ 64 = unat h"
  proof -
    have "unat (t + (h - t)) = (unat t + unat (h - t)) mod 2 ^ 64"
      by (subst unat_word_ariths) simp
    then show ?thesis by simp
  qed
  have "(unat t + unat ((h - t) AND (of_nat (2 ^ k) - 1))) mod 2 ^ k = (unat t + unat (h - t)) mod 2 ^ k"
    using assms(1) by (simp add: and_mask_unat mod_add_right_eq del: of_nat_power)
  also have "\<dots> = ((unat t + unat (h - t)) mod 2 ^ 64) mod 2 ^ k"
    using d by (simp add: mod_mod_cancel)
  also have "\<dots> = unat h" using e assms(2) by simp
  finally show ?thesis .
qed


section \<open>The contract of a bounded queue\<close>

text \<open>
  A queue holding at most \<open>cap q\<close> elements, seen as a list: \<open>push\<close> appends and reports
  success exactly while there is room, \<open>pop\<close> takes the oldest element, and neither does
  anything else. The client lemma is the loop \<open>while (auto event = queue_.pop())\<close>: it visits
  the elements in the order they were pushed and leaves the queue empty.
\<close>

locale bounded_fifo =
  fixes push_op :: "'q \<Rightarrow> 'a \<Rightarrow> bool \<times> 'q"
    and pop_op :: "'q \<Rightarrow> 'a option \<times> 'q"
    and is_empty :: "'q \<Rightarrow> bool"
    and view :: "'q \<Rightarrow> 'a list"
    and cap :: "'q \<Rightarrow> nat"
    and invar :: "'q \<Rightarrow> bool"
  assumes push_ok: "invar q \<Longrightarrow> length (view q) < cap q \<Longrightarrow>
      \<exists>q'. push_op q x = (True, q') \<and> view q' = view q @ [x] \<and> cap q' = cap q \<and> invar q'"
    and push_full: "invar q \<Longrightarrow> length (view q) = cap q \<Longrightarrow> push_op q x = (False, q)"
    and pop_some: "invar q \<Longrightarrow> view q = y # ys \<Longrightarrow>
      \<exists>q'. pop_op q = (Some y, q') \<and> view q' = ys \<and> cap q' = cap q \<and> invar q'"
    and pop_none: "invar q \<Longrightarrow> view q = [] \<Longrightarrow> pop_op q = (None, q)"
    and empty_iff: "invar q \<Longrightarrow> is_empty q \<longleftrightarrow> view q = []"
    and view_bound: "invar q \<Longrightarrow> length (view q) \<le> cap q"
begin

primrec push_all :: "'q \<Rightarrow> 'a list \<Rightarrow> bool list \<times> 'q" where
  "push_all q [] = ([], q)"
| "push_all q (x # xs) =
     (let (b, q1) = push_op q x; (bs, q2) = push_all q1 xs in (b # bs, q2))"

primrec drain :: "nat \<Rightarrow> 'q \<Rightarrow> 'a list \<times> 'q" where
  "drain 0 q = ([], q)"
| "drain (Suc n) q =
     (case pop_op q of (None, q1) \<Rightarrow> ([], q1)
      | (Some x, q1) \<Rightarrow> (let (xs, q2) = drain n q1 in (x # xs, q2)))"

lemma push_invar: "invar q \<Longrightarrow> invar (snd (push_op q x))"
  using push_ok[of q x] push_full[of q x] view_bound[of q]
  by (cases "length (view q) < cap q") auto

lemma pop_invar: "invar q \<Longrightarrow> invar (snd (pop_op q))"
  using pop_some[of q] pop_none[of q] by (cases "view q") auto

lemma drain_all:
  "invar q \<Longrightarrow> length (view q) < n \<Longrightarrow>
     \<exists>q'. drain n q = (view q, q') \<and> view q' = [] \<and> cap q' = cap q \<and> invar q'"
proof (induction n arbitrary: q)
  case 0
  then show ?case by simp
next
  case (Suc n)
  show ?case
  proof (cases "view q")
    case Nil
    then show ?thesis using pop_none[OF Suc.prems(1)] Suc.prems(1) by simp
  next
    case (Cons y ys)
    from pop_some[OF Suc.prems(1) Cons] obtain q1 where
      q1: "pop_op q = (Some y, q1)" "view q1 = ys" "cap q1 = cap q" "invar q1" by blast
    with Suc.prems(2) Cons have "length (view q1) < n" by simp
    from Suc.IH[OF q1(4) this] q1 Cons show ?thesis by auto
  qed
qed

lemma push_all_room:
  "invar q \<Longrightarrow> length (view q) + length xs \<le> cap q \<Longrightarrow>
     \<exists>q'. push_all q xs = (replicate (length xs) True, q')
       \<and> view q' = view q @ xs \<and> cap q' = cap q \<and> invar q'"
proof (induction xs arbitrary: q)
  case Nil
  then show ?case by simp
next
  case (Cons x xs)
  then have "length (view q) < cap q" by simp
  from push_ok[OF Cons.prems(1) this, of x] obtain q1 where
    q1: "push_op q x = (True, q1)" "view q1 = view q @ [x]" "cap q1 = cap q" "invar q1" by blast
  with Cons.IH[OF q1(4)] Cons.prems(2) show ?case by auto
qed

text \<open>What was pushed into an empty queue with room for it comes out in order.\<close>

lemma push_then_drain:
  assumes "invar q" "view q = []" "length xs \<le> cap q"
  shows "fst (drain (Suc (length xs)) (snd (push_all q xs))) = xs"
proof -
  from push_all_room[OF assms(1), of xs] assms obtain q' where
    "push_all q xs = (replicate (length xs) True, q')" "view q' = xs" "invar q'" by auto
  with drain_all[of q' "Suc (length xs)"] show ?thesis by auto
qed

end

section \<open>The queues implement the contract\<close>

lemma wf_queueE:
  assumes "wf_queue q"
  obtains k where "1 \<le> k" "k < 64" "length (buffer q) = 2 ^ k"
    "unat (head q) < 2 ^ k" "unat (tail q) < 2 ^ k"
  using assms by (auto simp: wf_queue_def)

lemma size_q_bound: "wf_queue q \<Longrightarrow> unat (size_q q) < length (buffer q)"
  by (elim wf_queueE) (simp add: size_q_def kMask_def and_mask_unat del: of_nat_power)

lemma head_index:
  "wf_queue q \<Longrightarrow> (unat (tail q) + unat (size_q q)) mod length (buffer q) = unat (head q)"
  by (elim wf_queueE) (simp add: size_q_def kMask_def used_index del: of_nat_power)

lemma size_q_0_iff: "wf_queue q \<Longrightarrow> unat (size_q q) = 0 \<longleftrightarrow> head q = tail q"
proof -
  assume w: "wf_queue q"
  then have t: "unat (tail q) < length (buffer q)" by (simp add: wf_queue_def)
  show ?thesis
  proof
    assume "unat (size_q q) = 0"
    with head_index[OF w] t have "unat (tail q) = unat (head q)" by simp
    then show "head q = tail q" by (simp add: word_unat_eq_iff)
  qed (simp add: size_q_def)
qed

text \<open>The size is the only offset below \<open>N\<close> that leads from the tail to the head.\<close>

lemma size_q_unique:
  assumes "wf_queue q" "n < length (buffer q)"
    and "(unat (tail q) + n) mod length (buffer q) = unat (head q)"
  shows "unat (size_q q) = n"
proof (rule ring_index_inj)
  show "(unat (tail q) + unat (size_q q)) mod length (buffer q) = (unat (tail q) + n) mod length (buffer q)"
    using assms(3) head_index[OF assms(1)] by argo
qed (use assms(2) size_q_bound[OF assms(1)] in auto)

lemma unat_next:
  assumes "wf_queue q" "unat i < length (buffer q)"
  shows "unat ((i + 1) AND kMask q) = (unat i + 1) mod length (buffer q)"
  using assms by (elim wf_queueE) (simp add: kMask_def next_index del: of_nat_power)

lemma push_full_iff:
  assumes w: "wf_queue q"
  shows "(head q + 1) AND kMask q = tail q \<longleftrightarrow> Suc (unat (size_q q)) = length (buffer q)"
proof -
  let ?N = "length (buffer q)" and ?n = "unat (size_q q)"
  have h: "unat (head q) < ?N" and t: "unat (tail q) < ?N" using w by (auto simp: wf_queue_def)
  have "(head q + 1) AND kMask q = tail q \<longleftrightarrow> (unat (head q) + 1) mod ?N = unat (tail q)"
    using unat_next[OF w h] by (auto simp: word_unat_eq_iff)
  also have "\<dots> \<longleftrightarrow> (unat (tail q) + Suc ?n) mod ?N = unat (tail q)"
    unfolding head_index[OF w, symmetric] by (simp add: mod_Suc_eq)
  also have "\<dots> \<longleftrightarrow> Suc ?n = ?N"
  proof (cases "Suc ?n = ?N")
    case False
    then have lt: "Suc ?n < ?N" using size_q_bound[OF w] by simp
    then have "(unat (tail q) + Suc ?n) mod ?N \<noteq> (unat (tail q) + 0) mod ?N"
      using ring_index_inj[of "unat (tail q)" "Suc ?n" ?N 0] by linarith
    then show ?thesis using False t by simp
  qed (use t in simp)
  finally show ?thesis .
qed

lemma push_Some:
  assumes w: "wf_queue q" and room: "Suc (unat (size_q q)) < length (buffer q)"
  obtains q' where "push q x = (True, q')" "wf_queue q'" "contents q' = contents q @ [x]"
    "length (buffer q') = length (buffer q)"
proof
  let ?N = "length (buffer q)" and ?n = "unat (size_q q)"
  let ?q = "q\<lparr>buffer := (buffer q)[unat (head q) := x], head := (head q + 1) AND kMask q\<rparr>"
  have h: "unat (head q) < ?N" and N: "0 < ?N" using w by (auto simp: wf_queue_def)
  show "push q x = (True, ?q)" using room push_full_iff[OF w] by (simp add: push_def Let_def)
  have nxt: "unat (head ?q) = (unat (head q) + 1) mod ?N"
    using unat_next[OF w h] by simp
  show w': "wf_queue ?q" using w nxt N by (simp add: wf_queue_def)
  have "unat (size_q ?q) = Suc ?n"
    using room nxt head_index[OF w] mod_Suc_eq[of "unat (tail q) + ?n" ?N]
    by (intro size_q_unique[OF w']) simp_all
  then show "contents ?q = contents q @ [x]"
    using ring_slice_update_next(2)[of ?n "buffer q" "unat (tail q)" x] room head_index[OF w]
    by (simp add: contents_def)
  show "length (buffer ?q) = ?N" by simp
qed

lemma pop_Some:
  assumes w: "wf_queue q" and ne: "head q \<noteq> tail q"
  obtains q' where "pop q = (Some (hd (contents q)), q')" "wf_queue q'" "contents q' = tl (contents q)"
    "length (buffer q') = length (buffer q)"
proof
  let ?N = "length (buffer q)"
  let ?q = "q\<lparr>tail := (tail q + 1) AND kMask q\<rparr>"
  have t: "unat (tail q) < ?N" and N: "0 < ?N" using w by (auto simp: wf_queue_def)
  obtain n where n: "unat (size_q q) = Suc n" using size_q_0_iff[OF w] ne by (cases "unat (size_q q)") auto
  have c: "contents q = buffer q ! unat (tail q) # ring_slice (buffer q) (Suc (unat (tail q))) n"
    using t by (simp add: contents_def n ring_slice_Cons)
  show "pop q = (Some (hd (contents q)), ?q)" using ne c by (simp add: pop_def Let_def)
  have nxt: "unat (tail ?q) = (unat (tail q) + 1) mod ?N"
    using unat_next[OF w t] by simp
  show w': "wf_queue ?q" using w nxt N by (simp add: wf_queue_def)
  have "unat (size_q ?q) = n"
  proof (rule size_q_unique[OF w'])
    show "n < length (buffer ?q)" using size_q_bound[OF w] n by simp
    show "(unat (tail ?q) + n) mod length (buffer ?q) = unat (head ?q)"
      using head_index[OF w] n nxt by (simp add: mod_add_left_eq)
  qed
  then show "contents ?q = tl (contents q)"
    using nxt c ring_slice_mod[of "buffer q" "Suc (unat (tail q))" n] by (simp add: contents_def)
  show "length (buffer ?q) = ?N" by simp
qed


lemma contents_Nil_iff: "wf_queue q \<Longrightarrow> contents q = [] \<longleftrightarrow> head q = tail q"
  using size_q_0_iff[of q] by (metis contents_def length_0_conv length_ring_slice)

lemma length_contents [simp]: "length (contents q) = unat (size_q q)"
  by (simp add: contents_def)

interpretation spsc: bounded_fifo push pop empty_q contents "\<lambda>q. length (buffer q) - 1" wf_queue
proof
  fix q :: "'a spsc_queue" and x
  assume w: "wf_queue q"
  then have N: "0 < length (buffer q)" by (auto simp: wf_queue_def)
  { assume "length (contents q) < length (buffer q) - 1"
    then have "Suc (unat (size_q q)) < length (buffer q)" by simp
    from push_Some[OF w this, of x]
    show "\<exists>q'. push q x = (True, q') \<and> contents q' = contents q @ [x]
        \<and> length (buffer q') - 1 = length (buffer q) - 1 \<and> wf_queue q'" by metis }
  { assume "length (contents q) = length (buffer q) - 1"
    then show "push q x = (False, q)"
      using push_full_iff[OF w] N by (simp add: push_def Let_def) }
  { fix y ys assume "contents q = y # ys"
    then show "\<exists>q'. pop q = (Some y, q') \<and> contents q' = ys
        \<and> length (buffer q') - 1 = length (buffer q) - 1 \<and> wf_queue q'"
      using pop_Some[OF w] contents_Nil_iff[OF w] by (metis list.distinct(1) list.sel(1,3)) }
  { assume "contents q = []"
    then show "pop q = (None, q)" using contents_Nil_iff[OF w] by (simp add: pop_def Let_def) }
  show "empty_q q \<longleftrightarrow> contents q = []" using contents_Nil_iff[OF w] by (simp add: empty_q_def)
  show "length (contents q) \<le> length (buffer q) - 1" using size_q_bound[OF w] by simp
qed

lemma wf_new_queue: "1 \<le> k \<Longrightarrow> k < 64 \<Longrightarrow> wf_queue (new_queue d (2 ^ k))"
  by (auto simp: wf_queue_def new_queue_def)

lemma contents_new_queue [simp]: "contents (new_queue d n) = []"
  by (simp add: contents_def new_queue_def size_q_def)

text \<open>The event bus is the same queue over \<open>market_event\<close>.\<close>

lemma bus_push_queue:
  "push (as_queue b) e = (fst (bus_push b e), as_queue (snd (bus_push b e)))"
  by (simp add: push_def bus_push_def as_queue_def kMask_def bus_kMask_def Let_def)

lemma bus_pop_queue: "pop (as_queue b) = (fst (bus_pop b), as_queue (snd (bus_pop b)))"
  by (simp add: pop_def bus_pop_def as_queue_def kMask_def bus_kMask_def Let_def)

lemma as_queue_inj: "as_queue a = as_queue b \<longleftrightarrow> a = b"
  by (cases a; cases b) (simp add: as_queue_def)

interpretation bus: bounded_fifo bus_push bus_pop bus_empty "\<lambda>b. contents (as_queue b)"
  "\<lambda>b. length (bus_buffer b) - 1" "\<lambda>b. wf_queue (as_queue b)"
proof
  have len: "length (buffer (as_queue b)) = length (bus_buffer b)" for b
    by (simp add: as_queue_def)
  fix b x
  assume w: "wf_queue (as_queue b)"
  { assume "length (contents (as_queue b)) < length (bus_buffer b) - 1"
    then show "\<exists>b'. bus_push b x = (True, b') \<and> contents (as_queue b') = contents (as_queue b) @ [x]
        \<and> length (bus_buffer b') - 1 = length (bus_buffer b) - 1 \<and> wf_queue (as_queue b')"
      using spsc.push_ok[OF w, of x] by (cases "bus_push b x") (auto simp: bus_push_queue len) }
  { assume "length (contents (as_queue b)) = length (bus_buffer b) - 1"
    then show "bus_push b x = (False, b)"
      using spsc.push_full[OF w, of x] by (cases "bus_push b x") (auto simp: bus_push_queue len as_queue_inj) }
  { fix y ys assume "contents (as_queue b) = y # ys"
    then show "\<exists>b'. bus_pop b = (Some y, b') \<and> contents (as_queue b') = ys
        \<and> length (bus_buffer b') - 1 = length (bus_buffer b) - 1 \<and> wf_queue (as_queue b')"
      using spsc.pop_some[OF w] by (cases "bus_pop b") (auto simp: bus_pop_queue len) }
  { assume "contents (as_queue b) = []"
    then show "bus_pop b = (None, b)"
      using spsc.pop_none[OF w] by (cases "bus_pop b") (auto simp: bus_pop_queue as_queue_inj) }
  show "bus_empty b \<longleftrightarrow> contents (as_queue b) = []"
    using contents_Nil_iff[OF w] by (auto simp: bus_empty_def as_queue_def)
  show "length (contents (as_queue b)) \<le> length (bus_buffer b) - 1"
    using spsc.view_bound[OF w] by (simp add: len)
qed

end
