(* ===== verification/Spsc_Concurrent.thy ===== *)
theory Spsc_Concurrent
  imports Spsc_Queue
begin

text \<open>
  The memory accesses of \<open>SpscQueue::push\<close> and \<open>SpscQueue::pop\<close>, interleaved. A step is one
  access of one thread: the load of \<open>head_\<close>, the load and test of \<open>tail_\<close>, the write of the
  slot, the store of \<open>head_\<close>, and the mirror image in the consumer. The accesses are taken in
  one global order: the release stores and acquire loads of the code order a slot's write before
  the read that sees the new index, and a thread that sees an older index of the other side
  only finds the queue fuller, or emptier, than it is.

  \<open>pushed\<close> and \<open>popped\<close> record the items for which \<open>push\<close> returned true and those that
  \<open>pop\<close> returned. With one producer nothing is lost, repeated or reordered and the two threads
  never touch one slot. With two producers, which is how \<open>StrategyRunner\<close> uses the queue (its
  order book, trade, quote, order and rollover threads all push), items are lost, repeated and forged.
\<close>

unbundle bit_operations_syntax

datatype 'a producer_pc =
    PIdle
  | PLoaded 'a size_t   \<comment> \<open>\<open>head\<close> loaded\<close>
  | PRoom 'a size_t     \<comment> \<open>\<open>next != tail\<close> seen\<close>
  | PWrote 'a size_t    \<comment> \<open>slot written, \<open>head_\<close> not yet stored\<close>

datatype 'a consumer_pc =
    CIdle
  | CLoaded size_t      \<comment> \<open>\<open>tail\<close> loaded\<close>
  | CSome size_t        \<comment> \<open>\<open>tail != head\<close> seen\<close>
  | CRead size_t 'a     \<comment> \<open>slot read, \<open>tail_\<close> not yet stored\<close>

record 'a conc_queue =
  mem :: "'a spsc_queue"
  prod_pc :: "nat \<Rightarrow> 'a producer_pc"
  cons_pc :: "'a consumer_pc"
  pushed :: "'a list"
  popped :: "'a list"

definition conc_init :: "'a \<Rightarrow> nat \<Rightarrow> 'a conc_queue" where
  "conc_init d n =
     \<lparr>mem = new_queue d n, prod_pc = (\<lambda>_. PIdle), cons_pc = CIdle, pushed = [], popped = []\<rparr>"

text \<open>\<open>P\<close> is the set of the threads that call \<open>push\<close>.\<close>

inductive queue_step :: "nat set \<Rightarrow> 'a conc_queue \<Rightarrow> 'a conc_queue \<Rightarrow> bool" for P where
  load_head: "i \<in> P \<Longrightarrow> prod_pc s i = PIdle \<Longrightarrow>
     queue_step P s (s\<lparr>prod_pc := (prod_pc s)(i := PLoaded x (head (mem s)))\<rparr>)"
| found_full: "i \<in> P \<Longrightarrow> prod_pc s i = PLoaded x h \<Longrightarrow> (h + 1) AND kMask (mem s) = tail (mem s) \<Longrightarrow>
     queue_step P s (s\<lparr>prod_pc := (prod_pc s)(i := PIdle)\<rparr>)"
| found_room: "i \<in> P \<Longrightarrow> prod_pc s i = PLoaded x h \<Longrightarrow> (h + 1) AND kMask (mem s) \<noteq> tail (mem s) \<Longrightarrow>
     queue_step P s (s\<lparr>prod_pc := (prod_pc s)(i := PRoom x h)\<rparr>)"
| write_slot: "i \<in> P \<Longrightarrow> prod_pc s i = PRoom x h \<Longrightarrow>
     queue_step P s (s\<lparr>mem := (mem s)\<lparr>buffer := (buffer (mem s))[unat h := x]\<rparr>,
                      prod_pc := (prod_pc s)(i := PWrote x h)\<rparr>)"
| store_head: "i \<in> P \<Longrightarrow> prod_pc s i = PWrote x h \<Longrightarrow>
     queue_step P s (s\<lparr>mem := (mem s)\<lparr>head := (h + 1) AND kMask (mem s)\<rparr>,
                      prod_pc := (prod_pc s)(i := PIdle), pushed := pushed s @ [x]\<rparr>)"
| load_tail: "cons_pc s = CIdle \<Longrightarrow>
     queue_step P s (s\<lparr>cons_pc := CLoaded (tail (mem s))\<rparr>)"
| found_empty: "cons_pc s = CLoaded t \<Longrightarrow> t = head (mem s) \<Longrightarrow>
     queue_step P s (s\<lparr>cons_pc := CIdle\<rparr>)"
| found_some: "cons_pc s = CLoaded t \<Longrightarrow> t \<noteq> head (mem s) \<Longrightarrow>
     queue_step P s (s\<lparr>cons_pc := CSome t\<rparr>)"
| read_slot: "cons_pc s = CSome t \<Longrightarrow>
     queue_step P s (s\<lparr>cons_pc := CRead t (buffer (mem s) ! unat t)\<rparr>)"
| store_tail: "cons_pc s = CRead t y \<Longrightarrow>
     queue_step P s (s\<lparr>mem := (mem s)\<lparr>tail := (t + 1) AND kMask (mem s)\<rparr>,
                      cons_pc := CIdle, popped := popped s @ [y]\<rparr>)"

section \<open>The invariant with one producer\<close>

definition room :: "'a spsc_queue \<Rightarrow> bool" where
  "room q \<longleftrightarrow> Suc (unat (size_q q)) < length (buffer q)"

definition producer_inv :: "'a conc_queue \<Rightarrow> bool" where
  "producer_inv s =
     (case prod_pc s 0 of
        PIdle \<Rightarrow> True
      | PLoaded x h \<Rightarrow> h = head (mem s)
      | PRoom x h \<Rightarrow> h = head (mem s) \<and> room (mem s)
      | PWrote x h \<Rightarrow> h = head (mem s) \<and> room (mem s) \<and> buffer (mem s) ! unat h = x)"

definition consumer_inv :: "'a conc_queue \<Rightarrow> bool" where
  "consumer_inv s =
     (case cons_pc s of
        CIdle \<Rightarrow> True
      | CLoaded t \<Rightarrow> t = tail (mem s)
      | CSome t \<Rightarrow> t = tail (mem s) \<and> contents (mem s) \<noteq> []
      | CRead t y \<Rightarrow> t = tail (mem s) \<and> contents (mem s) \<noteq> [] \<and> y = hd (contents (mem s)))"

definition conc_inv :: "'a conc_queue \<Rightarrow> bool" where
  "conc_inv s \<longleftrightarrow> wf_queue (mem s) \<and> producer_inv s \<and> consumer_inv s
     \<and> pushed s = popped s @ contents (mem s)"

lemmas conc_inv_defs = conc_inv_def producer_inv_def consumer_inv_def

lemma write_slot_queue:
  assumes "wf_queue q" "room q"
  shows "contents (q\<lparr>buffer := (buffer q)[unat (head q) := x]\<rparr>) = contents q"
    and "wf_queue (q\<lparr>buffer := (buffer q)[unat (head q) := x]\<rparr>)"
    and "room (q\<lparr>buffer := (buffer q)[unat (head q) := x]\<rparr>)"
    and "buffer (q\<lparr>buffer := (buffer q)[unat (head q) := x]\<rparr>) ! unat (head q) = x"
proof -
  have s: "size_q (q\<lparr>buffer := (buffer q)[unat (head q) := x]\<rparr>) = size_q q"
    by (simp add: size_q_def kMask_def)
  have "unat (size_q q) < length (buffer q)" using size_q_bound[OF assms(1)] .
  from ring_slice_update_next(1)[OF this, of "unat (tail q)" x]
  show "contents (q\<lparr>buffer := (buffer q)[unat (head q) := x]\<rparr>) = contents q"
    by (simp add: contents_def s head_index[OF assms(1)])
  show "wf_queue (q\<lparr>buffer := (buffer q)[unat (head q) := x]\<rparr>)"
    and "buffer (q\<lparr>buffer := (buffer q)[unat (head q) := x]\<rparr>) ! unat (head q) = x"
    using assms(1) by (auto simp: wf_queue_def)
  show "room (q\<lparr>buffer := (buffer q)[unat (head q) := x]\<rparr>)"
    using assms(2) by (simp add: room_def s)
qed

text \<open>Storing the head after the slot was written completes a \<open>push\<close>.\<close>

lemma store_head_queue:
  assumes "wf_queue q" "room q" "buffer q ! unat (head q) = x"
  shows "wf_queue (q\<lparr>head := (head q + 1) AND kMask q\<rparr>)"
    and "contents (q\<lparr>head := (head q + 1) AND kMask q\<rparr>) = contents q @ [x]"
proof -
  have e: "q\<lparr>buffer := (buffer q)[unat (head q) := x], head := (head q + 1) AND kMask q\<rparr>
         = q\<lparr>head := (head q + 1) AND kMask q\<rparr>"
    using assms(3) by (simp flip: assms(3) add: list_update_id)
  from assms(2) have "Suc (unat (size_q q)) < length (buffer q)" by (simp add: room_def)
  from push_Some[OF assms(1) this, of x] obtain q' where
    "push q x = (True, q')" "wf_queue q'" "contents q' = contents q @ [x]" by metis
  moreover from this(1) have "q' = q\<lparr>head := (head q + 1) AND kMask q\<rparr>"
    using e by (simp add: push_def Let_def split: if_splits)
  ultimately show "wf_queue (q\<lparr>head := (head q + 1) AND kMask q\<rparr>)"
    and "contents (q\<lparr>head := (head q + 1) AND kMask q\<rparr>) = contents q @ [x]" by auto
qed

lemma store_tail_queue:
  assumes "wf_queue q" "contents q \<noteq> []"
  shows "wf_queue (q\<lparr>tail := (tail q + 1) AND kMask q\<rparr>)"
    and "contents (q\<lparr>tail := (tail q + 1) AND kMask q\<rparr>) = tl (contents q)"
    and "room (q\<lparr>tail := (tail q + 1) AND kMask q\<rparr>)"
    and "buffer q ! unat (tail q) = hd (contents q)"
proof -
  have ne: "head q \<noteq> tail q" using contents_Nil_iff[OF assms(1)] assms(2) by simp
  from pop_Some[OF assms(1) ne] obtain q' where
    q': "pop q = (Some (hd (contents q)), q')" "wf_queue q'" "contents q' = tl (contents q)" by metis
  then have e: "q' = q\<lparr>tail := (tail q + 1) AND kMask q\<rparr>" and "buffer q ! unat (tail q) = hd (contents q)"
    using ne by (auto simp: pop_def Let_def)
  then show "buffer q ! unat (tail q) = hd (contents q)" by simp
  show "wf_queue (q\<lparr>tail := (tail q + 1) AND kMask q\<rparr>)"
    and "contents (q\<lparr>tail := (tail q + 1) AND kMask q\<rparr>) = tl (contents q)"
    using q' e by auto
  have "length (contents q') < length (contents q)" using q'(3) assms(2) by (cases "contents q") auto
  then show "room (q\<lparr>tail := (tail q + 1) AND kMask q\<rparr>)"
    using size_q_bound[OF assms(1)] unfolding e room_def by simp
qed

lemma contents_nonempty_iff_tail: "wf_queue q \<Longrightarrow> contents q \<noteq> [] \<longleftrightarrow> tail q \<noteq> head q"
  using contents_Nil_iff[of q] by auto

lemma room_iff: "wf_queue q \<Longrightarrow> room q \<longleftrightarrow> (head q + 1) AND kMask q \<noteq> tail q"
  using push_full_iff[of q] size_q_bound[of q] by (auto simp: room_def)

lemma conc_inv_init: "1 \<le> k \<Longrightarrow> k < 64 \<Longrightarrow> conc_inv (conc_init d (2 ^ k))"
  by (simp add: conc_inv_defs conc_init_def wf_new_queue)

lemma conc_inv_step:
  assumes "queue_step {0} s t" "conc_inv s"
  shows "conc_inv t"
  using assms
proof (induction rule: queue_step.induct)
  case (write_slot i s x h)
  then have r: "wf_queue (mem s)" "room (mem s)" "h = head (mem s)" by (auto simp: conc_inv_defs)
  show ?case
    using write_slot write_slot_queue[OF r(1,2), of x] r(3) by (auto simp: conc_inv_defs split: consumer_pc.splits)
next
  case (store_head i s x h)
  then have r: "wf_queue (mem s)" "room (mem s)" "buffer (mem s) ! unat (head (mem s)) = x" "h = head (mem s)"
    by (auto simp: conc_inv_defs)
  show ?case
    using store_head store_head_queue[OF r(1-3)] r(4) by (auto simp: conc_inv_defs split: consumer_pc.splits)
next
  case (read_slot s t)
  then have r: "wf_queue (mem s)" "contents (mem s) \<noteq> []" "t = tail (mem s)" by (auto simp: conc_inv_defs)
  show ?case using read_slot r store_tail_queue(4)[OF r(1,2)] by (auto simp: conc_inv_defs split: producer_pc.splits)
next
  case (store_tail s t y)
  then have r: "wf_queue (mem s)" "contents (mem s) \<noteq> []" "t = tail (mem s)" "y = hd (contents (mem s))"
    by (auto simp: conc_inv_defs)
  show ?case
    using store_tail store_tail_queue(1-3)[OF r(1,2)] r(2-4) by (auto simp: conc_inv_defs split: producer_pc.splits)
qed (auto simp: conc_inv_defs room_iff contents_nonempty_iff_tail split: consumer_pc.splits producer_pc.splits)

section \<open>The abstract queue\<close>

text \<open>What the two threads see: the items handed out so far and those waiting, at most \<open>N - 1\<close>.\<close>

inductive fifo_step :: "nat \<Rightarrow> 'a list \<times> 'a list \<Rightarrow> 'a list \<times> 'a list \<Rightarrow> bool" for N where
  enqueue: "Suc (length xs) < N \<Longrightarrow> fifo_step N (out, xs) (out, xs @ [x])"
| dequeue: "fifo_step N (out, x # xs) (out @ [x], xs)"

definition fifo_view :: "'a conc_queue \<Rightarrow> 'a list \<times> 'a list" where
  "fifo_view s = (popped s, contents (mem s))"

lemma queue_step_frame: "queue_step P s t \<Longrightarrow> length (buffer (mem t)) = length (buffer (mem s))"
  by (induction rule: queue_step.induct) auto

lemma queue_step_fifo:
  assumes "queue_step {0} s t" "conc_inv s" "length (buffer (mem s)) = N"
  shows "fifo_view t = fifo_view s \<or> fifo_step N (fifo_view s) (fifo_view t)"
proof -
  have v: "pushed u = popped u @ contents (mem u)" if "conc_inv u" for u :: "'a conc_queue"
    using that by (simp add: conc_inv_def)
  note p = v[OF assms(2)] v[OF conc_inv_step[OF assms(1,2)]]
  show ?thesis using assms(1)
  proof (cases rule: queue_step.cases)
    case (store_head i x h)
    then have c: "contents (mem t) = contents (mem s) @ [x]" "popped t = popped s" using p by auto
    have "room (mem s)" using assms(2) store_head by (auto simp: conc_inv_defs)
    then show ?thesis using c assms(3) by (auto simp: fifo_view_def room_def intro: fifo_step.enqueue)
  next
    case (store_tail u y)
    then have "contents (mem s) = y # contents (mem t)" "popped t = popped s @ [y]" using p by auto
    then show ?thesis by (auto simp: fifo_view_def intro: fifo_step.dequeue)
  qed (use p in \<open>auto simp: fifo_view_def\<close>)
qed

interpretation fifo: simulation "queue_step {0}" "\<lambda>s. conc_inv s \<and> length (buffer (mem s)) = N" fifo_view "fifo_step N" for N
  by unfold_locales (auto simp: queue_step_frame conc_inv_step intro: queue_step_fifo[THEN disjE])

lemma fifo_bound: "rtranclp (fifo_step N) v w \<Longrightarrow> length (snd v) < N \<Longrightarrow> length (snd w) < N"
  by (induction rule: rtranclp_induct) (auto elim!: fifo_step.cases)

text \<open>While the producer may write its slot the consumer never reads the same one.\<close>

lemma conc_inv_race_free:
  assumes "conc_inv s" "prod_pc s 0 = PRoom x h" "cons_pc s = CSome t"
  shows "h \<noteq> t"
  using assms contents_nonempty_iff_tail[of "mem s"] by (auto simp: conc_inv_defs)

text \<open>A successful \<open>pop\<close> with nobody in between is a run of four accesses; so are pops until the queue is empty.\<close>

lemma pop_is_run:
  assumes c: "cons_pc s = CIdle" and p: "pop (mem s) = (Some y, q)"
  shows "rtranclp (queue_step P) s (s\<lparr>mem := q, popped := popped s @ [y]\<rparr>)"
proof -
  let ?t = "tail (mem s)"
  let ?s1 = "s\<lparr>cons_pc := CLoaded ?t\<rparr>" and ?s2 = "s\<lparr>cons_pc := CSome ?t\<rparr>" and ?s3 = "s\<lparr>cons_pc := CRead ?t y\<rparr>"
  from p have ne: "?t \<noteq> head (mem s)" and y: "y = buffer (mem s) ! unat ?t"
    and q: "q = (mem s)\<lparr>tail := (?t + 1) AND kMask (mem s)\<rparr>"
    by (auto simp: pop_def Let_def split: if_splits)
  have 1: "queue_step P s ?s1" using c by (rule load_tail)
  have 2: "queue_step P ?s1 ?s2" using found_some[of ?s1 ?t P] ne by simp
  have 3: "queue_step P ?s2 ?s3" using read_slot[of ?s2 ?t P] y by simp
  have 4: "queue_step P ?s3 (s\<lparr>mem := q, popped := popped s @ [y]\<rparr>)"
    by (rule back_subst[of "queue_step P ?s3", OF store_tail[of ?s3 ?t y]])
      (use c in \<open>auto simp: q intro!: conc_queue.equality\<close>)
  show ?thesis
    by (rule converse_rtranclp_into_rtranclp, rule 1, rule converse_rtranclp_into_rtranclp, rule 2,
        rule converse_rtranclp_into_rtranclp, rule 3, rule r_into_rtranclp, rule 4)
qed

lemma drain_is_run:
  assumes "cons_pc s = CIdle" and "wf_queue (mem s)"
  obtains q where "rtranclp (queue_step P) s (s\<lparr>mem := q, popped := popped s @ contents (mem s)\<rparr>)"
    and "wf_queue q" and "contents q = []" and "head q = head (mem s)" and "buffer q = buffer (mem s)"
  using assms
proof (induction "contents (mem s)" arbitrary: s thesis)
  case Nil
  have "s\<lparr>mem := mem s, popped := popped s @ contents (mem s)\<rparr> = s" using Nil(1) by simp
  then show ?case using Nil by (metis rtranclp.rtrancl_refl)
next
  case (Cons y ys)
  have "head (mem s) \<noteq> tail (mem s)" using contents_Nil_iff[OF Cons.prems(3)] Cons.hyps(2) by auto
  from pop_Some[OF Cons.prems(3) this] Cons.hyps(2) obtain q1 where
    q1: "pop (mem s) = (Some y, q1)" "wf_queue q1" "contents q1 = ys" by (metis list.sel(1,3))
  then have same: "head q1 = head (mem s)" "buffer q1 = buffer (mem s)" by (auto simp: pop_def Let_def split: if_splits)
  let ?s1 = "s\<lparr>mem := q1, popped := popped s @ [y]\<rparr>"
  note run = pop_is_run[OF Cons.prems(2) q1(1), of P]
  obtain q where q: "rtranclp (queue_step P) ?s1 (?s1\<lparr>mem := q, popped := popped ?s1 @ contents (mem ?s1)\<rparr>)"
    "wf_queue q" "contents q = []" "head q = head (mem ?s1)" "buffer q = buffer (mem ?s1)"
    using Cons.hyps(1)[of ?s1] q1 Cons.prems(2) by auto
  have "?s1\<lparr>mem := q, popped := popped ?s1 @ contents (mem ?s1)\<rparr> = s\<lparr>mem := q, popped := popped s @ contents (mem s)\<rparr>"
    using q1(3) Cons.hyps(2) by simp
  with run q show ?case using Cons.prems(1)[of q] same by (simp add: rtranclp_trans)
qed

text \<open>
  A producer that stops between its write and its store of \<open>head_\<close>, while another one goes on: its
  late store sets \<open>head_\<close> back.
\<close>

definition stalled :: "'a conc_queue \<Rightarrow> nat \<Rightarrow> 'a \<Rightarrow> 'a conc_queue" where
  "stalled s i x =
     s\<lparr>mem := (mem s)\<lparr>buffer := (buffer (mem s))[unat (head (mem s)) := x]\<rparr>,
       prod_pc := (prod_pc s)(i := PWrote x (head (mem s)))\<rparr>"

lemma stall_is_run:
  assumes i: "i \<in> P" "prod_pc s i = PIdle" and room: "(head (mem s) + 1) AND kMask (mem s) \<noteq> tail (mem s)"
  shows "rtranclp (queue_step P) s (stalled s i x)"
proof -
  let ?h = "head (mem s)"
  let ?s1 = "s\<lparr>prod_pc := (prod_pc s)(i := PLoaded x ?h)\<rparr>"
  let ?s2 = "s\<lparr>prod_pc := (prod_pc s)(i := PRoom x ?h)\<rparr>"
  have 1: "queue_step P s ?s1" using i by (rule load_head)
  have 2: "queue_step P ?s1 ?s2" using found_room[of i P ?s1 x ?h] i room by simp
  have 3: "queue_step P ?s2 (stalled s i x)" using write_slot[of i P ?s2 x ?h] i by (simp add: stalled_def)
  show ?thesis
    by (rule converse_rtranclp_into_rtranclp, rule 1, rule converse_rtranclp_into_rtranclp, rule 2,
        rule r_into_rtranclp, rule 3)
qed

text \<open>A successful \<open>push\<close> with nobody in between is a run of four accesses.\<close>

lemma push_is_run:
  assumes i: "i \<in> P" "prod_pc s i = PIdle" and p: "push (mem s) x = (True, q)"
  shows "rtranclp (queue_step P) s (s\<lparr>mem := q, pushed := pushed s @ [x]\<rparr>)"
proof -
  let ?h = "head (mem s)"
  from p have room: "(?h + 1) AND kMask (mem s) \<noteq> tail (mem s)"
    and q: "q = (mem s)\<lparr>buffer := (buffer (mem s))[unat ?h := x], head := (?h + 1) AND kMask (mem s)\<rparr>"
    by (auto simp: push_def Let_def split: if_splits)
  have "queue_step P (stalled s i x) (s\<lparr>mem := q, pushed := pushed s @ [x]\<rparr>)"
    by (rule back_subst[of "queue_step P (stalled s i x)", OF store_head[of i P "stalled s i x" x ?h]])
      (use i in \<open>auto simp: q stalled_def kMask_def fun_eq_iff intro!: conc_queue.equality\<close>)
  with stall_is_run[OF i room] show ?thesis by (rule rtranclp.rtrancl_into_rtrancl)
qed

lemma push_new_queue:
  assumes "1 \<le> k" "k < 64"
  obtains q where "push (new_queue d (2 ^ k)) x = (True, q)" "contents q = [x]" "wf_queue q"
proof -
  have "(2::nat) ^ 1 \<le> 2 ^ k" using assms(1) by (intro power_increasing) auto
  then have "length (contents (new_queue d (2 ^ k))) < length (buffer (new_queue d (2 ^ k))) - 1"
    by (subst contents_new_queue) (simp add: new_queue_def)
  from spsc.push_ok[OF wf_new_queue[OF assms] this, of x] that show ?thesis by auto
qed

lemma two_pushed_contents:
  fixes d b1 b2 :: 'a
  defines "q \<equiv> \<lparr>head = 2, tail = 0, buffer = (replicate 1024 d)[0 := b1, 1 := b2]\<rparr>"
  shows "wf_queue q" and "contents q = [b1, b2]"
proof -
  show "wf_queue q" unfolding wf_queue_def by (auto simp: q_def intro: exI[of _ 10])
  have s: "unat (size_q q) = 2" by (simp add: size_q_def kMask_def q_def)
  show "contents q = [b1, b2]"
    unfolding contents_def s by (simp add: q_def ring_slice_def upt_conv_Cons)
qed

text \<open>What the consumer finds once the head of the runner's queue has been set back by one.\<close>

lemma set_back_contents:
  fixes d b1 b2 :: 'a
  defines "q \<equiv> \<lparr>head = 1, tail = 2, buffer = (replicate 1024 d)[0 := b1, 1 := b2]\<rparr>"
  shows "wf_queue q" and "contents q = replicate 1022 d @ [b1]"
proof -
  show "wf_queue q" unfolding wf_queue_def by (auto simp: q_def intro: exI[of _ 10])
  have s: "unat (size_q q) = 1023" by (simp add: size_q_def kMask_def q_def)
  have "ring_slice (buffer q) 2 1023 = replicate 1022 d @ [b1]"
  proof (rule nth_equalityI)
    fix k assume "k < length (ring_slice (buffer q) 2 1023)"
    then have "k < 1022 \<or> k = 1022" by auto
    then show "ring_slice (buffer q) 2 1023 ! k = (replicate 1022 d @ [b1]) ! k"
      by (auto simp: nth_ring_slice nth_append q_def nth_list_update)
  qed simp
  then show "contents q = replicate 1022 d @ [b1]" by (simp add: contents_def s) (simp add: q_def)
qed

section \<open>Properties\<close>

text \<open>
  C7: one producer thread and one consumer thread, interleaved in any way on a queue of \<open>2 ^ k\<close>
  slots, implement the abstract queue: what \<open>pop\<close> has returned and what is in the queue are at every
  moment a state that the abstract queue reaches by whole enqueues and dequeues, with at most
  \<open>2 ^ k - 1\<close> items waiting; the items whose \<open>push\<close> returned true are those popped, in order,
  followed by those waiting; and the slot the producer is about to write is never the one the
  consumer is about to read.
\<close>

theorem spsc_fifo_no_loss:
  assumes "rtranclp (queue_step {0}) (conc_init d (2 ^ k)) s" and "1 \<le> k" and "k < 64"
  shows "rtranclp (fifo_step (2 ^ k)) ([], []) (popped s, contents (mem s))
    \<and> length (contents (mem s)) \<le> 2 ^ k - 1
    \<and> pushed s = popped s @ contents (mem s)
    \<and> (\<forall>x h t. prod_pc s 0 = PRoom x h \<and> cons_pc s = CSome t \<longrightarrow> h \<noteq> t)"
proof -
  have "conc_inv (conc_init d (2 ^ k))" "length (buffer (mem (conc_init d (2 ^ k)))) = 2 ^ k"
    and v: "fifo_view (conc_init d (2 ^ k)) = ([], [])"
    using conc_inv_init[OF assms(2,3)] by (simp_all add: conc_init_def new_queue_def fifo_view_def contents_def size_q_def)
  with fifo.steps_simulated[OF assms(1)] have inv: "conc_inv s"
    and run: "rtranclp (fifo_step (2 ^ k)) ([], []) (fifo_view s)" by auto
  have "length (contents (mem s)) \<le> 2 ^ k - 1" using fifo_bound[OF run] by (simp add: fifo_view_def)
  with inv run show ?thesis using conc_inv_race_free[OF inv] by (auto simp: conc_inv_def fifo_view_def)
qed

theorem spsc_fifo_no_loss_witness:
  "\<exists>s. rtranclp (queue_step {0}) (conc_init (0::int) (2 ^ 10)) s \<and> pushed s = [7]
     \<and> pushed s = popped s @ contents (mem s)"
proof -
  obtain q where q: "push (new_queue (0::int) (2 ^ 10)) 7 = (True, q)" "contents q = [7]"
    using push_new_queue[of 10 "0::int" 7] by auto
  let ?init = "conc_init (0::int) (2 ^ 10)"
  let ?s = "?init\<lparr>mem := q, pushed := pushed ?init @ [7]\<rparr>"
  have r: "rtranclp (queue_step {0}) ?init ?s"
    by (rule push_is_run[where i = 0]) (use q in \<open>auto simp: conc_init_def\<close>)
  have p: "pushed ?s = [7]" by (simp add: conc_init_def)
  show ?thesis using r p spsc_fifo_no_loss[OF r] by (intro exI[of _ ?s]) auto
qed

text \<open>
  C8: a second producer breaks the queue. On the runner's queue of 1024 slots a thread that
  pushes \<open>a\<close> may be held up before it stores \<open>head_\<close>, while another pushes \<open>b1\<close> and \<open>b2\<close> and the
  consumer takes both. When the first goes on, all three were told that their push succeeded; but
  the store sets \<open>head_\<close> back behind \<open>tail_\<close>, and the consumer, without any further push, takes the
  1023 slots in between: 1022 items that nobody pushed and \<open>b1\<close> a second time, and never \<open>a\<close>.
  (The slots hold what they held before: moving a book or a trade event out of a slot copies it.)
\<close>

theorem second_producer_forges_items:
  "\<exists>s. rtranclp (queue_step {0, 1}) (conc_init d 1024) s
     \<and> pushed s = [b1, b2, a] \<and> popped s = [b1, b2] @ replicate 1022 d @ [b1]"
proof -
  let ?run = "rtranclp (queue_step {0, 1})" and ?s0 = "conc_init d 1024"
  let ?q0 = "new_queue d 1024" and ?s1 = "stalled (conc_init d 1024) 0 a"
  let ?q2 = "\<lparr>head = 2, tail = 0, buffer = (replicate 1024 d)[0 := b1, 1 := b2]\<rparr>"
  let ?q4 = "\<lparr>head = 1, tail = 2, buffer = (replicate 1024 d)[0 := b1, 1 := b2]\<rparr>"
  let ?s2 = "?s1\<lparr>mem := ?q2, pushed := [b1, b2]\<rparr>"
  have r1: "?run ?s0 ?s1" by (rule stall_is_run) (simp_all add: conc_init_def new_queue_def kMask_def)
  obtain q1 where q1: "push (mem ?s1) b1 = (True, q1)" "push q1 b2 = (True, ?q2)"
    by (simp add: push_def conc_init_def new_queue_def stalled_def kMask_def)
  have "?run ?s1 (?s1\<lparr>mem := q1, pushed := pushed ?s1 @ [b1]\<rparr>)"
    by (rule push_is_run[where i = 1]) (use q1 in \<open>simp_all add: stalled_def conc_init_def\<close>)
  moreover have "?run (?s1\<lparr>mem := q1, pushed := pushed ?s1 @ [b1]\<rparr>) ?s2"
    by (rule back_subst[of "?run _", OF push_is_run[where i = 1 and x = b2 and q = ?q2]])
      (use q1 in \<open>simp_all add: stalled_def conc_init_def\<close>)
  ultimately have r2: "?run ?s1 ?s2" by (rule rtranclp_trans)
  note c2 = two_pushed_contents[of d b1 b2]
  obtain q3 where q3: "?run ?s2 (?s2\<lparr>mem := q3, popped := [b1, b2]\<rparr>)" "wf_queue q3" "contents q3 = []"
    "head q3 = 2" "buffer q3 = buffer ?q2"
    using drain_is_run[of ?s2 "{0, 1}"] c2 by (auto simp: stalled_def conc_init_def)
  let ?s3 = "?s2\<lparr>mem := q3, popped := [b1, b2]\<rparr>" and ?s4 = "?s0\<lparr>mem := ?q4, pushed := [b1, b2, a], popped := [b1, b2]\<rparr>"
  have "tail q3 = 2" using contents_Nil_iff[OF q3(2)] q3(3,4) by simp
  then have q4: "q3\<lparr>head := 1\<rparr> = ?q4" using q3(4,5) by simp
  have r4: "queue_step {0, 1} ?s3 ?s4"
    by (rule back_subst[of "queue_step {0, 1} ?s3", OF store_head[of 0 _ _ a 0]])
      (use q3(5) q4 in \<open>auto simp: stalled_def conc_init_def new_queue_def kMask_def fun_eq_iff intro!: conc_queue.equality\<close>)
  obtain q5 where "?run ?s4 (?s4\<lparr>mem := q5, popped := [b1, b2] @ replicate 1022 d @ [b1]\<rparr>)"
    using drain_is_run[of ?s4 "{0, 1}"] set_back_contents[of d b1 b2] by (auto simp: conc_init_def)
  with r1 r2 q3(1) r4 have "?run ?s0 (?s4\<lparr>mem := q5, popped := [b1, b2] @ replicate 1022 d @ [b1]\<rparr>)"
    by (meson rtranclp_trans r_into_rtranclp)
  then show ?thesis by (intro exI) auto
qed

end
