(* ===== verification/Subscriptions.thy ===== *)
theory Subscriptions
  imports Interfaces
begin

text \<open>
  The class \<open>Subscription\<close> and its handles (\<open>src/market_data/market_data_client.hpp\<close>), and what the
  five \<open>subscribe_\<close> methods of the client do besides streaming: each makes a stop flag, starts a
  detached thread that looks at it, and returns a handle whose destructor sets it. The threads
  started so far are a list, a handle is the index of its thread. What a thread does with its flag
  is the subject of \<open>Stream_Loop\<close> and \<open>Market_Data\<close>.

  The contract \<open>subscription_service\<close> says what the owner of handles relies on; its lemmas about a
  group of handles are what a runner uses to replace all its subscriptions at once.
\<close>

section \<open>Threads and handles\<close>

datatype sub_kind = SubBook | SubTrades | SubQuotes | SubBars string

record sub_thread =
  st_topic :: "sub_kind \<times> symbol"
  st_stop :: bool

type_synonym subscription = nat

text \<open>A \<open>std::unique_ptr<Subscription>\<close>.\<close>

type_synonym sub_handle = "subscription option"

definition subscribe :: "sub_kind \<times> symbol \<Rightarrow> sub_thread list \<Rightarrow> subscription \<times> sub_thread list" where
  "subscribe topic ts = (length ts, ts @ [\<lparr>st_topic = topic, st_stop = False\<rparr>])"

text \<open>The destructor: \<open>cancel_\<close> sets the flag of the thread.\<close>

definition unsubscribe :: "subscription \<Rightarrow> sub_thread list \<Rightarrow> sub_thread list" where
  "unsubscribe h ts = (if h < length ts then ts[h := (ts ! h)\<lparr>st_stop := True\<rparr>] else ts)"

text \<open>The destruction of what a handle owns, if anything.\<close>

definition release :: "sub_handle \<Rightarrow> sub_thread list \<Rightarrow> sub_thread list" where
  "release h ts = (case h of None \<Rightarrow> ts | Some i \<Rightarrow> unsubscribe i ts)"

text \<open>\<open>handle = subscribe(...)\<close>: the new subscription is made before the old one is destroyed.\<close>

definition resubscribe ::
  "sub_kind \<times> symbol \<Rightarrow> sub_handle \<Rightarrow> sub_thread list \<Rightarrow> sub_handle \<times> sub_thread list" where
  "resubscribe topic h ts = (let (i, ts1) = subscribe topic ts in (Some i, release h ts1))"

text \<open>The threads that still stream, by handle.\<close>

definition live :: "sub_thread list \<Rightarrow> subscription \<rightharpoonup> sub_kind \<times> symbol" where
  "live ts h = (if h < length ts \<and> \<not> st_stop (ts ! h) then Some (st_topic (ts ! h)) else None)"

section \<open>What an owner of handles relies on\<close>

fun open_all :: "('k \<Rightarrow> 's \<Rightarrow> 'h \<times> 's) \<Rightarrow> 'k list \<Rightarrow> 's \<Rightarrow> 'h list \<times> 's" where
  "open_all opn [] s = ([], s)"
| "open_all opn (k # ks) s = (let (h, s1) = opn k s; (hs, s2) = open_all opn ks s1 in (h # hs, s2))"

locale subscription_service =
  fixes opn :: "'k \<Rightarrow> 's \<Rightarrow> 'h \<times> 's"
    and cls :: "'h \<Rightarrow> 's \<Rightarrow> 's"
    and alive :: "'s \<Rightarrow> 'h \<rightharpoonup> 'k"
  assumes open_fresh: "opn k s = (h, s') \<Longrightarrow> alive s h = None"
    and open_alive: "opn k s = (h, s') \<Longrightarrow> alive s' = (alive s)(h \<mapsto> k)"
    and close_alive: "alive (cls h s) = (alive s)(h := None)"
begin

lemma close_all_alive: "alive (fold cls hs s) h = (if h \<in> set hs then None else alive s h)"
  by (induction hs arbitrary: s) (auto simp: close_alive)

lemma open_all_alive:
  "open_all opn ks s = (hs, s') \<Longrightarrow>
   length hs = length ks \<and> distinct hs \<and> (\<forall>h \<in> set hs. alive s h = None) \<and> alive s' = alive s ++ map_of (zip hs ks)"
proof (induction ks arbitrary: s hs)
  case (Cons k ks)
  obtain h s1 where o: "opn k s = (h, s1)" by fastforce
  obtain hs' where t: "open_all opn ks s1 = (hs', s')" "hs = h # hs'"
    using Cons.prems o by (auto split: prod.splits)
  note ih = Cons.IH[OF t(1)] and a = open_alive[OF o] and f = open_fresh[OF o]
  have "h \<notin> set hs'" using ih a by auto
  then have "alive s' = alive s ++ map_of (zip hs (k # ks))"
    using ih a t(2) by (auto simp: fun_eq_iff map_add_def dest: map_of_SomeD set_zip_leftD split: option.split)
  moreover have "\<forall>g \<in> set hs. alive s g = None" using ih a f t(2) by (auto split: if_splits)
  moreover have "length hs = length (k # ks)" "distinct hs" using ih t(2) \<open>h \<notin> set hs'\<close> by simp_all
  ultimately show ?case by blast
qed simp

text \<open>Closing a group that was all there was, and opening another, leaves exactly the new group.\<close>

lemma replace_all_alive:
  assumes "dom (alive s) \<subseteq> set hs" "open_all opn ks (fold cls hs s) = (hs', s')"
  shows "length hs' = length ks" "distinct hs'" "alive s' = map_of (zip hs' ks)"
proof -
  have "alive (fold cls hs s) = Map.empty" using assms(1) by (auto simp: fun_eq_iff close_all_alive)
  then show "length hs' = length ks" "distinct hs'" "alive s' = map_of (zip hs' ks)"
    using open_all_alive[OF assms(2)] by simp_all
qed

end

interpretation md_subs: subscription_service subscribe unsubscribe live
proof
  fix k s and h :: subscription and s'
  assume "subscribe k s = (h, s')"
  then have e: "h = length s" "s' = s @ [\<lparr>st_topic = k, st_stop = False\<rparr>]" by (simp_all add: subscribe_def)
  show "live s h = None" by (simp add: live_def e)
  show "live s' = (live s)(h \<mapsto> k)" by (auto simp: live_def e fun_eq_iff nth_append less_Suc_eq)
next
  show "live (unsubscribe h s) = (live s)(h := None)" for h s
    by (auto simp: live_def unsubscribe_def fun_eq_iff nth_list_update)
qed

lemma release_Some [simp]: "release (Some h) ts = unsubscribe h ts" "release None ts = ts"
  by (simp_all add: release_def)

end
