(* ===== verification/Ofi_Types.thy ===== *)
theory Ofi_Types
  imports Interfaces
begin

text \<open>
  \<open>src/strategy/ofi_types.hpp\<close>: the events the strategy consumes, the results of the two flow
  analysers and their votes. \<open>std::exp\<close> and \<open>std::pow\<close>, whose last bits the C++ standard
  leaves to the implementation, are the fields of a \<open>libm\<close> record that the operations using
  them take as an argument; \<open>libm_ok\<close> states what is documented of them and used here.

  The contract \<open>threshold_voter\<close> is what \<open>OrderBookState::vote\<close> and
  \<open>TradeFlowAnalyzer::vote\<close> share: a signal compared with a threshold on both sides.
\<close>

abbreviation kBookLevels :: nat where
  "kBookLevels \<equiv> 5"

record mlofi_result =
  mlofi_score :: double
  mlofi_levels :: "double list"
  mlofi_ts :: time_point

record tfi_result =
  tfi :: double
  tfi_cvd :: double
  tfi_velocity :: double
  large_print :: bool
  tfi_ts :: time_point

datatype vote = VLong | VShort | VNeutral

definition vote_int :: "vote \<Rightarrow> int" where
  "vote_int v = (case v of VLong \<Rightarrow> 1 | VShort \<Rightarrow> - 1 | VNeutral \<Rightarrow> 0)"

record ofi_vote =
  mlofi_vote :: vote
  tfi_vote :: vote
  confluence :: int

definition is_strong :: "ofi_vote \<Rightarrow> bool" where
  "is_strong v \<longleftrightarrow> confluence v = 2 \<or> confluence v = - 2"

definition is_long :: "ofi_vote \<Rightarrow> bool" where
  "is_long v \<longleftrightarrow> confluence v > 0"

definition is_short :: "ofi_vote \<Rightarrow> bool" where
  "is_short v \<longleftrightarrow> confluence v < 0"

record book_level_event =
  ble_level :: int
  ble_price :: double
  old_bid_size :: double
  new_bid_size :: double
  old_ask_size :: double
  new_ask_size :: double
  ble_ts :: time_point

record trade_event =
  te_price :: double
  te_volume :: double
  te_is_buy :: bool
  te_ts :: time_point

section \<open>The mathematical library\<close>

record libm =
  exp_d :: "double \<Rightarrow> double"
  pow_d :: "double \<Rightarrow> double \<Rightarrow> double"

text \<open>
  Documented of \<open>exp\<close>: \<open>exp(0)\<close> is 1, and on non-positive arguments the result lies in
  \<open>[0, 1]\<close>. Documented of \<open>pow\<close>: a base in \<open>[0, 1]\<close> to a positive power lies in \<open>[0, 1]\<close>.
\<close>

definition libm_ok :: "libm \<Rightarrow> bool" where
  "libm_ok M \<longleftrightarrow>
     exp_d M (Fin 0) = Fin 1
     \<and> (\<forall>x. x \<le> Fin 0 \<longrightarrow> Fin 0 \<le> exp_d M x \<and> exp_d M x \<le> Fin 1)
     \<and> (\<forall>x. is_double (exp_d M x))
     \<and> (\<forall>b t. Fin 0 \<le> b \<and> b \<le> Fin 1 \<and> Fin 0 < t \<longrightarrow> Fin 0 \<le> pow_d M b t \<and> pow_d M b t \<le> Fin 1)"

text \<open>An instance, with step functions in the place of the curves.\<close>

definition step_libm :: libm where
  "step_libm = \<lparr>exp_d = (\<lambda>x. if Fin 0 \<le> x then Fin 1 else Fin (1/2)),
                pow_d = (\<lambda>b t. if Fin 0 < t then Fin (1/2) else Fin 1)\<rparr>"

lemma step_libm_ok: "libm_ok step_libm"
  by (auto simp: libm_ok_def step_libm_def is_double_def)

section \<open>Votes\<close>

lemma vote_int_simps [simp]: "vote_int VLong = 1" "vote_int VShort = - 1" "vote_int VNeutral = 0"
  by (simp_all add: vote_int_def)

text \<open>Two votes add up to 2 (or -2) exactly when both are long (or short).\<close>

lemma vote_sum:
  "vote_int a + vote_int b = 2 \<longleftrightarrow> a = VLong \<and> b = VLong"
  "vote_int a + vote_int b = - 2 \<longleftrightarrow> a = VShort \<and> b = VShort"
  by (cases a; cases b; simp)+

locale threshold_voter =
  fixes signal :: "'s \<Rightarrow> double"
    and threshold :: "'s \<Rightarrow> double"
    and vote_of :: "'s \<Rightarrow> vote"
  assumes vote_long: "vote_of s = VLong \<longleftrightarrow> threshold s < signal s"
    and vote_short: "vote_of s = VShort \<longleftrightarrow> \<not> threshold s < signal s \<and> signal s < - threshold s"
begin

lemma vote_neutral:
  "vote_of s = VNeutral \<longleftrightarrow> \<not> threshold s < signal s \<and> \<not> signal s < - threshold s"
  using vote_long[of s] vote_short[of s] by (cases "vote_of s") auto

lemma vote_NaN: "signal s = NaN \<Longrightarrow> vote_of s = VNeutral"
  by (simp add: vote_neutral)

lemma vote_zero: "Fin 0 \<le> threshold s \<Longrightarrow> signal s = Fin 0 \<Longrightarrow> vote_of s = VNeutral"
  by (cases "threshold s") (auto simp: vote_neutral)

end

end
