(* ===== verification/Order_Book_State.thy ===== *)
theory Order_Book_State
  imports Ofi_Types
begin

text \<open>
  \<open>src/strategy/order_book_state.hpp\<close>: the multi-level order flow imbalance. The score is a
  weighted sum of the order flow deltas of the five book levels that decays with time.
  Shown: the weights are a normalised family in \<open>[0, 1]\<close>, an event outside the five levels is
  ignored, decay never strengthens the score nor turns its sign, and buying pressure at any
  level never lowers the (decayed) score.
\<close>

section \<open>State and operations\<close>

record ob_config =
  level_decay :: double
  time_decay_per_sec :: double
  ob_signal_threshold :: double

definition default_ob_config :: ob_config where
  "default_ob_config = \<lparr>level_decay = lit (1/2), time_decay_per_sec = lit (9/10),
                        ob_signal_threshold = lit 3\<rparr>"

record order_book_state =
  ob_cfg :: ob_config
  weights :: "double list"
  level_scores :: "double list"
  score :: double
  last_event_ts :: time_point
  last_result :: mlofi_result

definition empty_mlofi :: mlofi_result where
  "empty_mlofi = \<lparr>mlofi_score = Fin 0, mlofi_levels = replicate kBookLevels (Fin 0), mlofi_ts = 0\<rparr>"

text \<open>\<open>std::accumulate(..., 0.0)\<close>.\<close>

definition accumulate :: "double list \<Rightarrow> double" where
  "accumulate xs = foldl (+) (Fin 0) xs"

definition precompute_weights :: "libm \<Rightarrow> ob_config \<Rightarrow> double list" where
  "precompute_weights M cfg =
     (let ws = map (\<lambda>k. exp_d M (- level_decay cfg * double_of_int (int k))) [0..<kBookLevels];
          sum = accumulate ws
      in map (\<lambda>w. w / sum) ws)"

definition new_order_book_state :: "libm \<Rightarrow> ob_config \<Rightarrow> order_book_state" where
  "new_order_book_state M cfg =
     \<lparr>ob_cfg = cfg, weights = precompute_weights M cfg,
      level_scores = replicate kBookLevels (Fin 0), score = Fin 0,
      last_event_ts = 0, last_result = empty_mlofi\<rparr>"

text \<open>\<open>duration<double>\<close> in seconds from a nanosecond count.\<close>

definition duration_sec :: "int \<Rightarrow> double" where
  "duration_sec ns = double_of_int ns / double_of_int nanos_per_sec"

definition apply_time_decay :: "libm \<Rightarrow> order_book_state \<Rightarrow> time_point \<Rightarrow> order_book_state" where
  "apply_time_decay M s now =
     (if last_event_ts s = 0 then s\<lparr>last_event_ts := now\<rparr>
      else let dt_sec = duration_sec (now - last_event_ts s)
           in if dt_sec \<le> Fin 0 then s
              else let decay = pow_d M (time_decay_per_sec (ob_cfg s)) dt_sec
                   in s\<lparr>score := score s * decay,
                        level_scores := map (\<lambda>ls. ls * decay) (level_scores s),
                        last_event_ts := now\<rparr>)"

definition build_mlofi :: "order_book_state \<Rightarrow> time_point \<Rightarrow> mlofi_result" where
  "build_mlofi s ts = \<lparr>mlofi_score = score s, mlofi_levels = level_scores s, mlofi_ts = ts\<rparr>"

definition ob_on_book_event ::
  "libm \<Rightarrow> order_book_state \<Rightarrow> book_level_event \<Rightarrow> mlofi_result \<times> order_book_state" where
  "ob_on_book_event M s e =
     (if ble_level e < 0 \<or> int kBookLevels \<le> ble_level e then (last_result s, s)
      else let s1 = apply_time_decay M s (ble_ts e);
               bid_delta = new_bid_size e - old_bid_size e;
               ask_delta = new_ask_size e - old_ask_size e;
               ofi_delta = bid_delta - ask_delta;
               k = nat (ble_level e);
               s2 = s1\<lparr>level_scores := (level_scores s1)[k := level_scores s1 ! k + ofi_delta],
                       score := score s1 + weights s1 ! k * ofi_delta\<rparr>;
               r = build_mlofi s2 (ble_ts e)
           in (r, s2\<lparr>last_result := r\<rparr>))"

definition decay_tick :: "libm \<Rightarrow> order_book_state \<Rightarrow> time_point \<Rightarrow> mlofi_result \<times> order_book_state" where
  "decay_tick M s now =
     (let s1 = apply_time_decay M s now;
          r = (last_result s1)\<lparr>mlofi_ts := now\<rparr>
      in (r, s1\<lparr>last_result := r\<rparr>))"

definition ob_vote :: "order_book_state \<Rightarrow> vote" where
  "ob_vote s =
     (if ob_signal_threshold (ob_cfg s) < score s then VLong
      else if score s < - ob_signal_threshold (ob_cfg s) then VShort
      else VNeutral)"

definition ob_reset :: "order_book_state \<Rightarrow> order_book_state" where
  "ob_reset s = s\<lparr>score := Fin 0, level_scores := replicate (length (level_scores s)) (Fin 0),
                  last_event_ts := 0, last_result := empty_mlofi\<rparr>"

section \<open>Invariant\<close>

text \<open>Both arrays have the five slots the code indexes.\<close>

definition ob_inv :: "order_book_state \<Rightarrow> bool" where
  "ob_inv s \<longleftrightarrow> length (weights s) = kBookLevels \<and> length (level_scores s) = kBookLevels
     \<and> is_double (score s)"

datatype ob_op = ObEvent book_level_event | ObTick time_point | ObReset

fun ob_step :: "libm \<Rightarrow> order_book_state \<Rightarrow> ob_op \<Rightarrow> order_book_state" where
  "ob_step M s (ObEvent e) = snd (ob_on_book_event M s e)"
| "ob_step M s (ObTick now) = snd (decay_tick M s now)"
| "ob_step M s ObReset = ob_reset s"

lemma apply_time_decay_frame [simp]:
  "ob_cfg (apply_time_decay M s now) = ob_cfg s"
  "weights (apply_time_decay M s now) = weights s"
  "length (level_scores (apply_time_decay M s now)) = length (level_scores s)"
  "last_result (apply_time_decay M s now) = last_result s"
  by (simp_all add: apply_time_decay_def Let_def)

lemma apply_time_decay_is_double:
  "is_double (score s) \<Longrightarrow> is_double (score (apply_time_decay M s now))"
  by (simp add: apply_time_decay_def Let_def)

lemma ob_inv_new: "ob_inv (new_order_book_state M cfg)"
  by (simp add: ob_inv_def new_order_book_state_def precompute_weights_def Let_def)

lemma ob_inv_step: "ob_inv s \<Longrightarrow> ob_inv (ob_step M s op)"
  by (cases op)
    (auto simp: ob_inv_def ob_on_book_event_def decay_tick_def ob_reset_def Let_def
      apply_time_decay_is_double)

interpretation ob: inv_machine "ob_step M" ob_inv
  by unfold_locales (rule ob_inv_step)

interpretation ob_voter: threshold_voter score "\<lambda>s. ob_signal_threshold (ob_cfg s)" ob_vote
  by unfold_locales (auto simp: ob_vote_def)

section \<open>Decay\<close>

lemma double_mult_shrink:
  assumes "is_double x" "Fin 0 \<le> d" "d \<le> Fin 1"
  shows "Fin 0 \<le> x \<Longrightarrow> x \<noteq> PInf \<Longrightarrow> Fin 0 \<le> x * d \<and> x * d \<le> x"
    and "x \<le> Fin 0 \<Longrightarrow> x \<noteq> NInf \<Longrightarrow> x \<le> x * d \<and> x * d \<le> Fin 0"
proof -
  obtain q where d: "d = Fin q" "0 \<le> q" "q \<le> 1" using assms(2,3) by (cases d) auto
  { assume "Fin 0 \<le> x" "x \<noteq> PInf"
    then obtain a where a: "x = Fin a" "0 \<le> a" by (cases x) auto
    have "0 \<le> a * q" "a * q \<le> a" using a d by (auto simp: mult_left_le)
    then show "Fin 0 \<le> x * d \<and> x * d \<le> x"
      using a d assms(1) by (auto intro: rnd_ge rnd_le) }
  { assume "x \<le> Fin 0" "x \<noteq> NInf"
    then obtain a where a: "x = Fin a" "a \<le> 0" by (cases x) auto
    have "a * q \<le> 0" "a \<le> a * q"
      using a d mult_left_mono_neg[of q 1 a] by (auto simp: mult_nonpos_nonneg)
    then show "x \<le> x * d \<and> x * d \<le> Fin 0"
      using a d assms(1) by (auto intro: rnd_ge rnd_le) }
qed


lemma duration_sec_not_NaN: "duration_sec ns \<noteq> NaN"
proof -
  have d: "double_of_int nanos_per_sec = Fin 1000000000"
    by (simp add: double_of_int_def)
  show ?thesis unfolding duration_sec_def d
    using double_of_int_not_NaN[of ns] by (cases "double_of_int ns") auto
qed

text \<open>
  One decay step on a finite score: the score keeps its sign and does not grow in magnitude.
\<close>

lemma apply_time_decay_shrinks:
  assumes "libm_ok M" "Fin 0 \<le> time_decay_per_sec (ob_cfg s)" "time_decay_per_sec (ob_cfg s) \<le> Fin 1"
    and "score s = Fin q" "is_double (score s)"
  shows "0 \<le> q \<Longrightarrow> Fin 0 \<le> score (apply_time_decay M s now) \<and> score (apply_time_decay M s now) \<le> score s"
    and "q \<le> 0 \<Longrightarrow> score s \<le> score (apply_time_decay M s now) \<and> score (apply_time_decay M s now) \<le> Fin 0"
proof -
  let ?dt = "duration_sec (now - last_event_ts s)"
  let ?p = "pow_d M (time_decay_per_sec (ob_cfg s)) ?dt"
  have p: "Fin 0 \<le> ?p \<and> ?p \<le> Fin 1" if "\<not> ?dt \<le> Fin 0"
    using that assms(1-3) duration_sec_not_NaN double_not_le[of ?dt "Fin 0"]
    by (simp add: libm_ok_def)
  note shrink = double_mult_shrink[OF assms(5), of ?p, unfolded assms(4)]
  show "0 \<le> q \<Longrightarrow> Fin 0 \<le> score (apply_time_decay M s now) \<and> score (apply_time_decay M s now) \<le> score s"
    using p shrink(1) by (auto simp: apply_time_decay_def Let_def assms(4))
  show "q \<le> 0 \<Longrightarrow> score s \<le> score (apply_time_decay M s now) \<and> score (apply_time_decay M s now) \<le> Fin 0"
    using p shrink(2) by (auto simp: apply_time_decay_def Let_def assms(4))
qed

definition finite_score :: "order_book_state \<Rightarrow> bool" where
  "finite_score s \<longleftrightarrow> ob_inv s \<and> (\<exists>q. score s = Fin q)"

lemma decay_tick_frame [frame_simps]:
  "ob_cfg (snd (decay_tick M s now)) = ob_cfg s"
  "score (snd (decay_tick M s now)) = score (apply_time_decay M s now)"
  by (simp_all add: decay_tick_def Let_def)

lemma decay_tick_vote:
  assumes "libm_ok M" "Fin 0 \<le> time_decay_per_sec (ob_cfg s)" "time_decay_per_sec (ob_cfg s) \<le> Fin 1"
    and "finite_score s" "Fin 0 \<le> ob_signal_threshold (ob_cfg s)"
  shows "finite_score (snd (decay_tick M s now))
    \<and> (ob_vote (snd (decay_tick M s now)) = ob_vote s \<or> ob_vote (snd (decay_tick M s now)) = VNeutral)"
proof -
  let ?s' = "snd (decay_tick M s now)"
  from assms(4) obtain q where q: "score s = Fin q" and i: "ob_inv s" by (auto simp: finite_score_def)
  then have d: "is_double (score s)" by (simp add: ob_inv_def)
  have i': "ob_inv ?s'" using ob_inv_step[OF i, of M "ObTick now"] by simp
  note sh = apply_time_decay_shrinks[OF assms(1-3) q d, of now]
  show ?thesis
  proof (cases "0 \<le> q")
    case True
    with sh(1) q obtain r where r: "score ?s' = Fin r" "0 \<le> r" "r \<le> q"
      by (cases "score ?s'") (auto simp: frame_simps)
    then show ?thesis using assms(5) i' q
      by (cases "ob_signal_threshold (ob_cfg s)") (auto simp: finite_score_def ob_vote_def frame_simps)
  next
    case False
    with sh(2) q obtain r where r: "score ?s' = Fin r" "r \<le> 0" "q \<le> r"
      by (cases "score ?s'") (auto simp: frame_simps)
    then show ?thesis using assms(5) i' q False
      by (cases "ob_signal_threshold (ob_cfg s)") (auto simp: finite_score_def ob_vote_def frame_simps)
  qed
qed

section \<open>Weights\<close>

lemma accumulate_snoc: "accumulate (xs @ [x]) = accumulate xs + x"
  by (simp add: accumulate_def)

lemma accumulate_unit_interval:
  assumes "\<forall>x\<in>set xs. Fin 0 \<le> x \<and> x \<le> Fin 1" "length xs \<le> 2 ^ 53"
  shows "Fin 0 \<le> accumulate xs \<and> accumulate xs \<le> Fin (of_nat (length xs)) \<and> is_double (accumulate xs)"
  using assms
proof (induction xs rule: rev_induct)
  case Nil
  then show ?case by (simp add: accumulate_def)
next
  case (snoc x xs)
  then have ih: "Fin 0 \<le> accumulate xs" "accumulate xs \<le> Fin (of_nat (length xs))" by auto
  from ih obtain a where a: "accumulate xs = Fin a" "0 \<le> a" "a \<le> of_nat (length xs)"
    by (cases "accumulate xs") auto
  from snoc.prems obtain b where b: "x = Fin b" "0 \<le> b" "b \<le> 1" by (cases x) auto
  have n: "is_double (Fin (of_nat (Suc (length xs))))"
    using is_double_int[of "int (Suc (length xs))"] snoc.prems(2) by simp
  have "rnd (a + b) \<le> Fin (of_nat (Suc (length xs)))"
    by (rule rnd_le[OF n]) (use a b in simp)
  moreover have "Fin 0 \<le> rnd (a + b)" by (rule rnd_ge) (use a b in simp_all)
  ultimately show ?case by (simp add: accumulate_snoc a b)
qed

lemma accumulate_ge_element:
  assumes "\<forall>x\<in>set xs. Fin 0 \<le> x \<and> x \<le> Fin 1 \<and> is_double x" "length xs \<le> 2 ^ 53" "y \<in> set xs"
  shows "y \<le> accumulate xs"
  using assms
proof (induction xs rule: rev_induct)
  case Nil
  then show ?case by simp
next
  case (snoc x xs)
  have acc: "Fin 0 \<le> accumulate xs" "is_double (accumulate xs)"
    using accumulate_unit_interval[of xs] snoc.prems by auto
  show ?case
  proof (cases "y \<in> set xs")
    case True
    with snoc have "y \<le> accumulate xs" by simp
    then show ?thesis
      unfolding accumulate_snoc using acc snoc.prems(1) by (intro double_add_increasing(1)) auto
  next
    case False
    with snoc.prems have "y = x" by simp
    then show ?thesis
      unfolding accumulate_snoc using acc snoc.prems(1) double_le_not_NaN[of "Fin 0" x]
      by (intro double_add_increasing(2)) auto
  qed
qed

lemma neg_mult_nonpos:
  assumes "Fin 0 \<le> x" "x \<noteq> PInf" "0 \<le> k" "\<bar>k\<bar> \<le> 2 ^ 53"
  shows "- x * double_of_int k \<le> Fin 0"
proof -
  obtain a where a: "x = Fin a" "0 \<le> a" using assms(1,2) by (cases x) auto
  then have "- (a * of_int k) \<le> 0" using assms(3) by simp
  then show ?thesis using a assms(4) by (auto simp: double_of_int_exact intro: rnd_le)
qed

section \<open>Properties\<close>

text \<open>
  The level weights of the order book imbalance. For a finite non-negative \<open>level_decay\<close>
  there are five weights and, after the normalisation in floating point, each lies in
  \<open>[0, 1]\<close>.
\<close>

lemma weights_in_unit_interval:
  assumes "libm_ok M" and "Fin 0 \<le> level_decay cfg" and "level_decay cfg \<noteq> PInf"
  shows "length (precompute_weights M cfg) = 5
    \<and> (\<forall>w \<in> set (precompute_weights M cfg). Fin 0 \<le> w \<and> w \<le> Fin 1)"
proof -
  define ws where "ws = map (\<lambda>k. exp_d M (- level_decay cfg * double_of_int (int k))) [0..<kBookLevels]"
  have unit: "Fin 0 \<le> w \<and> w \<le> Fin 1 \<and> is_double w" if "w \<in> set ws" for w
  proof -
    from that obtain k where k: "k < 5" "w = exp_d M (- level_decay cfg * double_of_int (int k))"
      by (auto simp: ws_def)
    then have "- level_decay cfg * double_of_int (int k) \<le> Fin 0"
      using assms(2,3) by (intro neg_mult_nonpos) auto
    then show ?thesis using assms(1) k(2) by (simp add: libm_ok_def)
  qed
  have len: "length ws = 5" by (simp add: ws_def)
  have one: "Fin 1 \<in> set ws"
  proof -
    have "- level_decay cfg * double_of_int 0 = Fin 0"
      using assms(2,3) by (cases "level_decay cfg") (auto simp: double_of_int_def)
    then have "exp_d M (- level_decay cfg * double_of_int (int 0)) = Fin 1"
      using assms(1) by (simp add: libm_ok_def)
    then show ?thesis unfolding ws_def set_map by (metis (mono_tags, lifting) image_eqI
          atLeastLessThan_iff set_upt zero_le zero_less_numeral)
  qed
  have le: "w \<le> accumulate ws" if "w \<in> set ws" for w
    using accumulate_ge_element[of ws w] unit that len by auto
  have "accumulate ws \<le> Fin 5"
    using accumulate_unit_interval[of ws] unit len by auto
  with le[OF one] obtain t where t: "accumulate ws = Fin t" "1 \<le> t" by (cases "accumulate ws") auto
  have "Fin 0 \<le> w / accumulate ws \<and> w / accumulate ws \<le> Fin 1" if "w \<in> set ws" for w
  proof -
    from unit[OF that] le[OF that] t obtain b where b: "w = Fin b" "0 \<le> b" "b \<le> t" by (cases w) auto
    then have "0 \<le> b / t" "b / t \<le> 1" using t(2) by auto
    then show ?thesis using b t by (auto intro: rnd_ge rnd_le)
  qed
  moreover have "precompute_weights M cfg = map (\<lambda>w. w / accumulate ws) ws"
    by (simp add: precompute_weights_def ws_def Let_def)
  ultimately show ?thesis using len by auto
qed

text \<open>
  The passage of time creates no vote. From a finite score, with a decay factor in
  \<open>[0, 1]\<close> and a non-negative threshold, any number of \<open>decay_tick\<close> calls at any times
  leaves the vote what it was or makes it neutral.
\<close>

lemma decay_creates_no_vote:
  assumes "libm_ok M" and "Fin 0 \<le> time_decay_per_sec (ob_cfg s)" and "time_decay_per_sec (ob_cfg s) \<le> Fin 1"
    and "Fin 0 \<le> ob_signal_threshold (ob_cfg s)" and "ob_inv s" and "score s = Fin q"
  shows "ob_vote (foldl (\<lambda>s now. snd (decay_tick M s now)) s ts) \<in> {ob_vote s, VNeutral}"
proof -
  let ?run = "foldl (\<lambda>s now. snd (decay_tick M s now)) s"
  have "ob_cfg (?run ts) = ob_cfg s \<and> finite_score (?run ts) \<and> ob_vote (?run ts) \<in> {ob_vote s, VNeutral}"
  proof (induction ts rule: rev_induct)
    case Nil
    then show ?case using assms by (auto simp: finite_score_def)
  next
    case (snoc t ts)
    then show ?case using decay_tick_vote[OF assms(1), of "?run ts" t] assms(2-4)
      by (auto simp: frame_simps)
  qed
  then show ?thesis by simp
qed

end
