(* ===== verification/Trade_Flow.thy ===== *)
theory Trade_Flow
  imports Order_Book_State
begin

text \<open>
  \<open>src/strategy/trade_flow_analyzer.hpp\<close>: the trade flow imbalance over a sliding time
  window, the cumulative volume delta, the trade rate and the detector of large prints.

  The specification is the history of trades since the session reset: for trades in time
  order the deques, which the code maintains by popping their front, are the filters of that
  history by age, and the volume average ranges over its last \<open>avg_volume_period\<close> entries.
  The imbalance lies in \<open>[-1, 1]\<close> in floating point.
\<close>

section \<open>State and operations\<close>

record tf_config =
  tfi_window :: int
  velocity_window :: int
  large_print_mult :: double
  avg_volume_period :: uint32
  tf_signal_threshold :: double

definition default_tf_config :: tf_config where
  "default_tf_config = \<lparr>tfi_window = 5000, velocity_window = 1000, large_print_mult = lit 4,
                        avg_volume_period = 100, tf_signal_threshold = lit (3/10)\<rparr>"

record trade_flow =
  tf_cfg :: tf_config
  tf_cvd :: double
  window :: "trade_event list"
  velocity_times :: "time_point list"
  recent_volumes :: "double list"
  tf_last_result :: tfi_result

definition empty_tfi :: tfi_result where
  "empty_tfi = \<lparr>tfi = Fin 0, tfi_cvd = Fin 0, tfi_velocity = Fin 0, large_print = False, tfi_ts = 0\<rparr>"

definition new_trade_flow :: "tf_config \<Rightarrow> trade_flow" where
  "new_trade_flow cfg = \<lparr>tf_cfg = cfg, tf_cvd = Fin 0, window = [], velocity_times = [],
                         recent_volumes = [], tf_last_result = empty_tfi\<rparr>"

definition tf_evict_old :: "trade_flow \<Rightarrow> time_point \<Rightarrow> trade_flow" where
  "tf_evict_old s now =
     (let tfi_cutoff = now - millis (tfi_window (tf_cfg s));
          velocity_cutoff = now - millis (velocity_window (tf_cfg s))
      in s\<lparr>window := dropWhile (\<lambda>t. te_ts t < tfi_cutoff) (window s),
           velocity_times := dropWhile (\<lambda>t. t < velocity_cutoff) (velocity_times s) @ [now]\<rparr>)"

definition update_avg_volume :: "trade_flow \<Rightarrow> double \<Rightarrow> trade_flow" where
  "update_avg_volume s vol =
     (let vs = recent_volumes s @ [vol]
      in s\<lparr>recent_volumes := if unat (avg_volume_period (tf_cfg s)) < length vs then tl vs else vs\<rparr>)"

text \<open>The loop of \<open>normalized_tfi\<close> with its two accumulators.\<close>

fun side_volumes :: "trade_event list \<Rightarrow> double \<Rightarrow> double \<Rightarrow> double \<times> double" where
  "side_volumes [] buy_vol sell_vol = (buy_vol, sell_vol)"
| "side_volumes (t # ts) buy_vol sell_vol =
     (if te_is_buy t then side_volumes ts (buy_vol + te_volume t) sell_vol
      else side_volumes ts buy_vol (sell_vol + te_volume t))"

definition normalized_tfi :: "trade_flow \<Rightarrow> double" where
  "normalized_tfi s =
     (let (buy_vol, sell_vol) = side_volumes (window s) (Fin 0) (Fin 0);
          total = buy_vol + sell_vol
      in if total < lit (1/10^9) then Fin 0 else (buy_vol - sell_vol) / total)"

definition avg_volume :: "trade_flow \<Rightarrow> double" where
  "avg_volume s =
     (if recent_volumes s = [] then Fin 1
      else accumulate (recent_volumes s) / double_of_int (int (length (recent_volumes s))))"

definition build_tfi :: "trade_flow \<Rightarrow> trade_event \<Rightarrow> tfi_result \<times> trade_flow" where
  "build_tfi s e =
     (let r = \<lparr>tfi = normalized_tfi s, tfi_cvd = tf_cvd s,
               tfi_velocity = double_of_int (int (length (velocity_times s))),
               large_print = avg_volume s * large_print_mult (tf_cfg s) < te_volume e,
               tfi_ts = te_ts e\<rparr>
      in (r, s\<lparr>tf_last_result := r\<rparr>))"

definition on_trade :: "trade_flow \<Rightarrow> trade_event \<Rightarrow> tfi_result \<times> trade_flow" where
  "on_trade s e =
     (let s1 = tf_evict_old s (te_ts e);
          s2 = s1\<lparr>window := window s1 @ [e],
                  tf_cvd := tf_cvd s1 + (if te_is_buy e then te_volume e else - te_volume e)\<rparr>;
          s3 = update_avg_volume s2 (te_volume e)
      in build_tfi s3 e)"

definition tf_session_reset :: "trade_flow \<Rightarrow> trade_flow" where
  "tf_session_reset s = s\<lparr>tf_cvd := Fin 0, window := [], velocity_times := []\<rparr>"

definition tf_vote :: "trade_flow \<Rightarrow> vote" where
  "tf_vote s =
     (let norm = normalized_tfi s
      in if tf_signal_threshold (tf_cfg s) < norm then VLong
         else if norm < - tf_signal_threshold (tf_cfg s) then VShort
         else VNeutral)"

lemmas trade_flow_defs =
  tf_evict_old_def update_avg_volume_def build_tfi_def on_trade_def tf_session_reset_def

interpretation tf_voter: threshold_voter normalized_tfi "\<lambda>s. tf_signal_threshold (tf_cfg s)" tf_vote
  by unfold_locales (auto simp: tf_vote_def Let_def)

section \<open>The deques as views of the history\<close>

definition on_trades :: "trade_flow \<Rightarrow> trade_event list \<Rightarrow> trade_flow" where
  "on_trades s es = foldl (\<lambda>s e. snd (on_trade s e)) s es"

text \<open>The last \<open>n\<close> elements of a list.\<close>

definition last_n :: "nat \<Rightarrow> 'a list \<Rightarrow> 'a list" where
  "last_n n xs = drop (length xs - n) xs"

lemma on_trades_snoc [simp]: "on_trades s (es @ [e]) = snd (on_trade (on_trades s es) e)"
  by (simp add: on_trades_def)

lemma on_trade_fields [simp]:
  "tf_cfg (snd (on_trade s e)) = tf_cfg s"
  "window (snd (on_trade s e)) =
     dropWhile (\<lambda>t. te_ts t < te_ts e - millis (tfi_window (tf_cfg s))) (window s) @ [e]"
  "velocity_times (snd (on_trade s e)) =
     dropWhile (\<lambda>t. t < te_ts e - millis (velocity_window (tf_cfg s))) (velocity_times s) @ [te_ts e]"
  "tf_cvd (snd (on_trade s e)) = tf_cvd s + (if te_is_buy e then te_volume e else - te_volume e)"
  by (simp_all add: trade_flow_defs Let_def)

lemma on_trade_recent:
  "recent_volumes (snd (on_trade s e)) =
     (let vs = recent_volumes s @ [te_volume e]
      in if unat (avg_volume_period (tf_cfg s)) < length vs then tl vs else vs)"
  by (simp add: trade_flow_defs Let_def)

lemma on_trades_cfg [simp]: "tf_cfg (on_trades s es) = tf_cfg s"
  by (induction es rule: rev_induct) (simp_all add: on_trades_def)

lemma last_n_snoc: "last_n n (xs @ [x]) =
    (let vs = last_n n xs @ [x] in if n < length vs then tl vs else vs)"
proof (cases "n \<le> length xs")
  case True
  have "drop (length (xs @ [x]) - n) (xs @ [x]) = tl (drop (length xs - n) (xs @ [x]))"
    using True by (simp add: Suc_diff_le drop_Suc tl_drop del: drop_append)
  then show ?thesis using True by (simp add: last_n_def Let_def)
qed (simp add: last_n_def Let_def)

text \<open>Dropping from the front filters a list whose keys ascend.\<close>

lemma dropWhile_filter:
  "sorted (map key xs) \<Longrightarrow> dropWhile (\<lambda>x. key x < c) xs = filter (\<lambda>x. c \<le> key x) xs"
  for key :: "'a \<Rightarrow> int"
proof (induction xs)
  case (Cons x xs)
  show ?case
  proof (cases "key x < c")
    case False
    with Cons.prems have "\<forall>y \<in> set xs. c \<le> key y" by fastforce
    then have "filter (\<lambda>x. c \<le> key x) xs = xs" by (rule filter_True)
    with False show ?thesis by simp
  qed (use Cons in simp)
qed simp

text \<open>
  One step of a sliding window: filtering what is already filtered by an older cutoff.
\<close>

lemma window_step:
  fixes key :: "'a \<Rightarrow> int"
  assumes "sorted (map key (es @ [e]))" "0 \<le> w"
    and "ws = filter (\<lambda>x. key (last es) - w \<le> key x) es \<or> es = [] \<and> ws = []"
  shows "dropWhile (\<lambda>x. key x < key e - w) ws @ [e] = filter (\<lambda>x. key e - w \<le> key x) (es @ [e])"
proof (cases "es = []")
  case False
  then have ws: "ws = filter (\<lambda>x. key (last es) - w \<le> key x) es" using assms(3) by simp
  have "key (last es) \<le> key e" using assms(1) False by (simp add: sorted_append)
  then have "filter (\<lambda>x. key e - w \<le> key x) ws = filter (\<lambda>x. key e - w \<le> key x) es"
    unfolding ws filter_filter by (intro filter_cong) auto
  moreover have "sorted (map key ws)"
    unfolding ws using assms(1) by (simp add: sorted_append sorted_filter)
  ultimately show ?thesis using assms(2) by (simp add: dropWhile_filter)
qed (use assms in auto)

definition tf_spec :: "trade_event list \<Rightarrow> trade_flow \<Rightarrow> bool" where
  "tf_spec es s \<longleftrightarrow>
     window s = filter (\<lambda>t. te_ts (last es) - millis (tfi_window (tf_cfg s)) \<le> te_ts t) es
     \<and> velocity_times s =
         map te_ts (filter (\<lambda>t. te_ts (last es) - millis (velocity_window (tf_cfg s)) \<le> te_ts t) es)
     \<and> recent_volumes s = last_n (unat (avg_volume_period (tf_cfg s))) (map te_volume es)"

lemma tf_spec_new: "tf_spec [] (new_trade_flow cfg)"
  by (simp add: tf_spec_def new_trade_flow_def last_n_def)

lemma tf_spec_step:
  assumes "tf_spec es s" "sorted (map te_ts (es @ [e]))"
    "0 \<le> tfi_window (tf_cfg s)" "0 \<le> velocity_window (tf_cfg s)"
  shows "tf_spec (es @ [e]) (snd (on_trade s e))"
proof -
  let ?v = "filter (\<lambda>t. te_ts (last es) - millis (velocity_window (tf_cfg s)) \<le> te_ts t) es"
  have m: "dropWhile (\<lambda>t. t < c) (map te_ts xs) = map te_ts (dropWhile (\<lambda>t. te_ts t < c) xs)" for c xs
    by (simp add: dropWhile_map o_def)
  have w: "dropWhile (\<lambda>t. te_ts t < te_ts e - millis (tfi_window (tf_cfg s))) (window s) @ [e]
      = filter (\<lambda>t. te_ts e - millis (tfi_window (tf_cfg s)) \<le> te_ts t) (es @ [e])"
    by (rule window_step[OF assms(2)]) (use assms in \<open>auto simp: tf_spec_def\<close>)
  have v: "dropWhile (\<lambda>t. te_ts t < te_ts e - millis (velocity_window (tf_cfg s))) ?v @ [e]
      = filter (\<lambda>t. te_ts e - millis (velocity_window (tf_cfg s)) \<le> te_ts t) (es @ [e])"
    by (rule window_step[OF assms(2)]) (use assms in auto)
  have vt: "velocity_times (snd (on_trade s e)) =
      map te_ts (dropWhile (\<lambda>t. te_ts t < te_ts e - millis (velocity_window (tf_cfg s))) ?v @ [e])"
    using assms(1) by (simp add: tf_spec_def m)
  show ?thesis
    using w vt assms(1) unfolding v
    by (simp add: tf_spec_def on_trade_recent last_n_snoc del: filter_append)
qed

lemma tf_spec_run:
  assumes "sorted (map te_ts es)" "0 \<le> tfi_window cfg" "0 \<le> velocity_window cfg"
  shows "tf_spec es (on_trades (new_trade_flow cfg) es)"
  using assms
proof (induction es rule: rev_induct)
  case Nil
  then show ?case by (simp add: on_trades_def tf_spec_new)
next
  case (snoc e es)
  have "tf_spec es (on_trades (new_trade_flow cfg) es)" using snoc by (simp add: sorted_append)
  from tf_spec_step[OF this snoc.prems(1)] snoc.prems show ?case
    by (simp add: new_trade_flow_def)
qed

section \<open>The imbalance is a ratio\<close>

text \<open>Trades whose volumes are finite or infinite numbers, not negative and not NaN.\<close>

definition volumes_ok :: "trade_event list \<Rightarrow> bool" where
  "volumes_ok es \<longleftrightarrow> (\<forall>e \<in> set es. Fin 0 \<le> te_volume e)"

lemma side_volumes_nonneg:
  "volumes_ok ts \<Longrightarrow> Fin 0 \<le> b \<Longrightarrow> Fin 0 \<le> c \<Longrightarrow> is_double b \<Longrightarrow> is_double c \<Longrightarrow>
   side_volumes ts b c = (buy, sell) \<Longrightarrow>
   Fin 0 \<le> buy \<and> Fin 0 \<le> sell \<and> is_double buy \<and> is_double sell"
  by (induction ts b c rule: side_volumes.induct)
    (auto simp: volumes_ok_def double_add_nonneg split: if_splits)

lemma ratio_unit:
  assumes "Fin 0 \<le> b" "Fin 0 \<le> c" "is_double b" "is_double c" "\<not> b + c < e" "Fin 0 < e"
  shows "b + c = PInf \<or> Fin (- 1) \<le> (b - c) / (b + c) \<and> (b - c) / (b + c) \<le> Fin 1"
proof (cases b)
  case (Fin p)
  show ?thesis
  proof (cases c)
    case q: (Fin q)
    have pq: "0 \<le> p" "0 \<le> q" using assms(1,2) Fin q by auto
    have lo: "- rnd (p + q) \<le> rnd (p - q)"
      using pq rnd_mono[of "- (p + q)" "p - q"] by (simp add: rnd_uminus del: minus_add_distrib)
    have hi: "rnd (p - q) \<le> rnd (p + q)" using pq by (intro rnd_mono) simp
    show ?thesis
    proof (cases "rnd (p + q)")
      case t: (Fin t)
      have "0 < t" using assms(5,6) Fin q t by (cases e) auto
      then show ?thesis
        using double_ratio_bounded[of t "rnd (p - q)"] lo hi Fin q t by simp
    next
      case PInf
      then show ?thesis using Fin q by simp
    next
      case NInf
      then show ?thesis using double_add_nonneg[OF assms(1,2)] Fin q by simp
    qed simp
  qed (use assms Fin in auto)
next
  case PInf
  then show ?thesis using assms by (cases c) auto
qed (use assms in auto)

text \<open>The total volume of a window, in the order the code adds it up.\<close>

definition total_volume :: "trade_flow \<Rightarrow> double" where
  "total_volume s = (case side_volumes (window s) (Fin 0) (Fin 0) of (b, c) \<Rightarrow> b + c)"

lemma normalized_tfi_unit:
  assumes "volumes_ok (window s)"
  shows "total_volume s = PInf \<or> Fin (- 1) \<le> normalized_tfi s \<and> normalized_tfi s \<le> Fin 1"
proof -
  obtain b c where bc: "side_volumes (window s) (Fin 0) (Fin 0) = (b, c)" by fastforce
  note nn = side_volumes_nonneg[OF assms _ _ _ _ bc]
  show ?thesis
    using ratio_unit[of b c "lit (1/10^9)"] nn lit_nano bc
    by (simp add: normalized_tfi_def total_volume_def Let_def)
qed

lemma volumes_ok_on_trade:
  "volumes_ok (window s) \<Longrightarrow> Fin 0 \<le> te_volume e \<Longrightarrow> volumes_ok (window (snd (on_trade s e)))"
  by (auto simp: volumes_ok_def dest: set_dropWhileD)

lemma volumes_ok_on_trades:
  "volumes_ok (window s) \<Longrightarrow> volumes_ok es \<Longrightarrow> volumes_ok (window (on_trades s es))"
proof (induction es rule: rev_induct)
  case (snoc e es)
  have "volumes_ok es" "Fin 0 \<le> te_volume e" using snoc.prems(2) by (simp_all add: volumes_ok_def)
  with snoc.IH[OF snoc.prems(1)] show ?case by (simp add: volumes_ok_on_trade del: on_trade_fields)
qed (simp add: on_trades_def)

lemma build_tfi_result:
  "tfi (fst (build_tfi s e)) = normalized_tfi (snd (build_tfi s e))"
  "tfi_velocity (fst (build_tfi s e)) = double_of_int (int (length (velocity_times (snd (build_tfi s e)))))"
  by (simp_all add: build_tfi_def Let_def normalized_tfi_def)

lemma on_trade_result:
  "tfi (fst (on_trade s e)) = normalized_tfi (snd (on_trade s e))"
  "tfi_velocity (fst (on_trade s e)) = double_of_int (int (length (velocity_times (snd (on_trade s e)))))"
  unfolding on_trade_def Let_def by (rule build_tfi_result)+

section \<open>Properties\<close>

text \<open>
  C10: the sliding windows are views of the trade history. For trades that arrive in time
  order, after the trade \<open>e\<close> the imbalance window holds exactly the trades not older than
  \<open>tfi_window\<close>, the reported velocity is the number of trades not older than
  \<open>velocity_window\<close>, and the volume average ranges over the last \<open>avg_volume_period\<close> trades.
\<close>

theorem trade_windows_are_history:
  assumes "sorted (map te_ts (es @ [e]))" and "0 \<le> tfi_window cfg" and "0 \<le> velocity_window cfg"
    and "on_trade (on_trades (new_trade_flow cfg) es) e = (r, s)"
  shows "window s = filter (\<lambda>t. te_ts e - millis (tfi_window cfg) \<le> te_ts t) (es @ [e])
    \<and> tfi_velocity r = double_of_int (int (length
        (filter (\<lambda>t. te_ts e - millis (velocity_window cfg) \<le> te_ts t) (es @ [e]))))
    \<and> recent_volumes s = last_n (unat (avg_volume_period cfg)) (map te_volume (es @ [e]))"
proof -
  have s: "s = on_trades (new_trade_flow cfg) (es @ [e])" using assms(4) by simp
  have c: "tf_cfg s = cfg" unfolding s on_trades_cfg by (simp add: new_trade_flow_def)
  have "tf_spec (es @ [e]) s" unfolding s by (rule tf_spec_run[OF assms(1-3)])
  moreover have "tfi_velocity r = double_of_int (int (length (velocity_times s)))"
    using on_trade_result(2)[of "on_trades (new_trade_flow cfg) es" e] assms(4) by simp
  ultimately show ?thesis by (simp add: tf_spec_def c del: filter_append)
qed

definition trade_at :: "int \<Rightarrow> bool \<Rightarrow> int \<Rightarrow> trade_event" where
  "trade_at sec buy vol = \<lparr>te_price = Fin 100, te_volume = Fin (of_int vol), te_is_buy = buy,
                           te_ts = seconds sec\<rparr>"

theorem trade_windows_are_history_witness:
  "window (snd (on_trade (on_trades (new_trade_flow default_tf_config)
       [trade_at 1 True 2, trade_at 8 False 1]) (trade_at 10 True 3)))
     = [trade_at 8 False 1, trade_at 10 True 3]"
proof -
  let ?p = "on_trade (on_trades (new_trade_flow default_tf_config)
       [trade_at 1 True 2, trade_at 8 False 1]) (trade_at 10 True 3)"
  show ?thesis
    using trade_windows_are_history[of "[trade_at 1 True 2, trade_at 8 False 1]" "trade_at 10 True 3"
        default_tf_config "fst ?p" "snd ?p"]
    by (simp add: default_tf_config_def trade_at_def)
qed



end
