(* ===== verification/Spoof_Filter.thy ===== *)
theory Spoof_Filter
  imports Ofi_Types
begin

text \<open>
  \<open>src/strategy/spoof_filter.hpp\<close>: per price level the number of large additions,
  cancellations and fills; a level with many cancellations is flagged for \<open>flag_ttl\<close>.
  The hash maps are maps from the rounded price; \<open>operator[]\<close> inserts a zeroed entry.

  The specification is the list of operations since the last reset: a level is reported as
  spoofed only if that list holds the events that justify it.
\<close>

section \<open>State and operations\<close>

record spoof_config =
  min_large_qty :: double
  max_cancel_ratio :: double
  min_events :: uint32
  spoof_window :: int
  flag_ttl :: int

definition default_spoof_config :: spoof_config where
  "default_spoof_config = \<lparr>min_large_qty = lit 10, max_cancel_ratio = lit (8/10), min_events = 5,
                           spoof_window = 60, flag_ttl = 300\<rparr>"

record level_stats =
  adds :: uint32
  cancels :: uint32
  fills :: uint32
  last_add_ts :: time_point

definition empty_level :: level_stats where
  "empty_level = \<lparr>adds = 0, cancels = 0, fills = 0, last_add_ts = 0\<rparr>"

record spoof_filter =
  spoof_cfg :: spoof_config
  stats :: "int \<rightharpoonup> level_stats"
  flagged :: "int \<rightharpoonup> time_point"

definition new_spoof_filter :: "spoof_config \<Rightarrow> spoof_filter" where
  "new_spoof_filter cfg = \<lparr>spoof_cfg = cfg, stats = Map.empty, flagged = Map.empty\<rparr>"

definition round_price :: "double \<Rightarrow> int" where
  "round_price p = cast_int 64 (std_round (p * lit 100))"

text \<open>\<open>stats_[key]\<close>, which a missing key reads as a fresh entry.\<close>

definition level_at :: "spoof_filter \<Rightarrow> int \<Rightarrow> level_stats" where
  "level_at s key = (case stats s key of None \<Rightarrow> empty_level | Some l \<Rightarrow> l)"

definition sf_evict_old :: "spoof_filter \<Rightarrow> time_point \<Rightarrow> spoof_filter" where
  "sf_evict_old s now =
     s\<lparr>stats := (\<lambda>key. case stats s key of
                   None \<Rightarrow> None
                 | Some l \<Rightarrow> if seconds (spoof_window (spoof_cfg s)) < now - last_add_ts l then None
                            else Some l)\<rparr>"

definition maybe_flag :: "spoof_filter \<Rightarrow> double \<Rightarrow> time_point \<Rightarrow> spoof_filter" where
  "maybe_flag s price ts =
     (let key = round_price price;
          l = level_at s key;
          s1 = s\<lparr>stats := (stats s)(key \<mapsto> l)\<rparr>;
          total = cancels l + fills l
      in if total < min_events (spoof_cfg s) then s1
         else let ratio = double_of_int (uint (cancels l)) / double_of_int (uint total)
              in if max_cancel_ratio (spoof_cfg s) \<le> ratio
                 then s1\<lparr>flagged := (flagged s1)(key \<mapsto> ts)\<rparr> else s1)"

definition on_large_add :: "spoof_filter \<Rightarrow> double \<Rightarrow> time_point \<Rightarrow> spoof_filter" where
  "on_large_add s price ts =
     (let key = round_price price; l = level_at s key;
          s1 = s\<lparr>stats := (stats s)(key \<mapsto> l\<lparr>last_add_ts := ts, adds := adds l + 1\<rparr>)\<rparr>
      in sf_evict_old s1 ts)"

definition on_large_cancel :: "spoof_filter \<Rightarrow> double \<Rightarrow> time_point \<Rightarrow> spoof_filter" where
  "on_large_cancel s price ts =
     (let key = round_price price; l = level_at s key;
          s1 = s\<lparr>stats := (stats s)(key \<mapsto> l\<lparr>cancels := cancels l + 1\<rparr>)\<rparr>;
          s2 = maybe_flag s1 price ts
      in sf_evict_old s2 ts)"

definition on_large_fill :: "spoof_filter \<Rightarrow> double \<Rightarrow> spoof_filter" where
  "on_large_fill s price =
     (let key = round_price price; l = level_at s key
      in s\<lparr>stats := (stats s)(key \<mapsto> l\<lparr>fills := fills l + 1\<rparr>)\<rparr>)"

definition is_spoofed :: "spoof_filter \<Rightarrow> double \<Rightarrow> time_point \<Rightarrow> bool" where
  "is_spoofed s price now =
     (case flagged s (round_price price) of
        None \<Rightarrow> False
      | Some t \<Rightarrow> now - t < seconds (flag_ttl (spoof_cfg s)))"

definition sf_session_reset :: "spoof_filter \<Rightarrow> spoof_filter" where
  "sf_session_reset s = s\<lparr>stats := Map.empty, flagged := Map.empty\<rparr>"

datatype sf_op = LargeAdd double time_point | LargeCancel double time_point | LargeFill double

fun sf_step :: "spoof_filter \<Rightarrow> sf_op \<Rightarrow> spoof_filter" where
  "sf_step s (LargeAdd p t) = on_large_add s p t"
| "sf_step s (LargeCancel p t) = on_large_cancel s p t"
| "sf_step s (LargeFill p) = on_large_fill s p"

definition sf_run :: "spoof_filter \<Rightarrow> sf_op list \<Rightarrow> spoof_filter" where
  "sf_run s ops = foldl sf_step s ops"

lemmas spoof_defs =
  sf_evict_old_def maybe_flag_def on_large_add_def on_large_cancel_def on_large_fill_def
  sf_session_reset_def level_at_def

section \<open>Frame\<close>

lemma spoof_cfg_frame [simp]:
  "spoof_cfg (sf_evict_old s now) = spoof_cfg s"
  "spoof_cfg (maybe_flag s p ts) = spoof_cfg s"
  "spoof_cfg (on_large_add s p ts) = spoof_cfg s"
  "spoof_cfg (on_large_cancel s p ts) = spoof_cfg s"
  "spoof_cfg (on_large_fill s p) = spoof_cfg s"
  "spoof_cfg (sf_session_reset s) = spoof_cfg s"
  by (simp_all add: spoof_defs Let_def)

lemma spoof_cfg_step [simp]: "spoof_cfg (sf_step s op) = spoof_cfg s"
  by (cases op) simp_all

lemma sf_run_snoc [simp]: "sf_run s (ops @ [op]) = sf_step (sf_run s ops) op"
  by (simp add: sf_run_def)

lemma spoof_cfg_run [simp]: "spoof_cfg (sf_run s ops) = spoof_cfg s"
  by (induction ops rule: rev_induct) (simp_all add: sf_run_def)

lemma level_at_evict:
  "level_at (sf_evict_old s now) k = level_at s k \<or> level_at (sf_evict_old s now) k = empty_level"
  by (auto simp: level_at_def sf_evict_old_def split: option.split)

lemma flagged_frame [simp]:
  "flagged (sf_evict_old s now) = flagged s"
  "flagged (on_large_add s p ts) = flagged s"
  "flagged (on_large_fill s p) = flagged s"
  by (simp_all add: spoof_defs Let_def)

lemma level_at_upd [simp]:
  "level_at (s\<lparr>stats := (stats s)(k \<mapsto> l)\<rparr>) k' = (if k' = k then l else level_at s k')"
  by (simp add: level_at_def)

lemma maybe_flag_level [simp]: "level_at (maybe_flag s p ts) k = level_at s k"
  by (auto simp: maybe_flag_def Let_def level_at_def)

lemma maybe_flag_flagged:
  "flagged (maybe_flag s p ts) =
     (let l = level_at s (round_price p); total = cancels l + fills l
      in if min_events (spoof_cfg s) \<le> total
            \<and> max_cancel_ratio (spoof_cfg s) \<le> double_of_int (uint (cancels l)) / double_of_int (uint total)
         then (flagged s)(round_price p \<mapsto> ts) else flagged s)"
  by (auto simp: maybe_flag_def Let_def)

text \<open>What the operations do to a level (they may also evict it) and to the flags.\<close>

lemma on_large_cancel_flagged:
  "flagged (on_large_cancel s p ts) =
     (let l = level_at s (round_price p); c = cancels l + 1; total = c + fills l
      in if min_events (spoof_cfg s) \<le> total
            \<and> max_cancel_ratio (spoof_cfg s) \<le> double_of_int (uint c) / double_of_int (uint total)
         then (flagged s)(round_price p \<mapsto> ts) else flagged s)"
  by (simp add: on_large_cancel_def Let_def maybe_flag_flagged)

lemma on_large_cancel_level:
  "level_at (on_large_cancel s p ts) k = empty_level
   \<or> level_at (on_large_cancel s p ts) k =
      (level_at s k)\<lparr>cancels := cancels (level_at s k) + (if k = round_price p then 1 else 0)\<rparr>"
  unfolding on_large_cancel_def Let_def
  using level_at_evict[of "maybe_flag (s\<lparr>stats := (stats s)(round_price p \<mapsto>
      (level_at s (round_price p))\<lparr>cancels := cancels (level_at s (round_price p)) + 1\<rparr>)\<rparr>) p ts" ts k]
  by (elim disjE) simp_all

lemma on_large_add_level:
  "level_at (on_large_add s p ts) k = empty_level
   \<or> cancels (level_at (on_large_add s p ts) k) = cancels (level_at s k)
     \<and> fills (level_at (on_large_add s p ts) k) = fills (level_at s k)"
  unfolding on_large_add_def Let_def
  using level_at_evict[of "s\<lparr>stats := (stats s)(round_price p \<mapsto> (level_at s (round_price p))
      \<lparr>last_add_ts := ts, adds := adds (level_at s (round_price p)) + 1\<rparr>)\<rparr>" ts k]
  by (elim disjE) simp_all

lemma on_large_fill_level:
  "level_at (on_large_fill s p) k =
     (level_at s k)\<lparr>fills := fills (level_at s k) + (if k = round_price p then 1 else 0)\<rparr>"
  by (simp add: on_large_fill_def Let_def)

section \<open>Counters are bounded by the history\<close>

fun cancels_at :: "int \<Rightarrow> sf_op \<Rightarrow> bool" where
  "cancels_at k (LargeCancel p _) = (round_price p = k)"
| "cancels_at k _ = False"

fun fills_at :: "int \<Rightarrow> sf_op \<Rightarrow> bool" where
  "fills_at k (LargeFill p) = (round_price p = k)"
| "fills_at k _ = False"

definition count_ops :: "(sf_op \<Rightarrow> bool) \<Rightarrow> sf_op list \<Rightarrow> nat" where
  "count_ops P ops = length (filter P ops)"

lemma count_ops_snoc [simp]: "count_ops P (ops @ [op]) = count_ops P ops + (if P op then 1 else 0)"
  by (simp add: count_ops_def)

lemma unat_Suc_le: "unat (x + 1) \<le> Suc (unat x)" for x :: uint32
  using unat_word_ariths(1)[of x 1] by simp

lemma unat_plus_le: "unat (x + y) \<le> unat x + unat y" for x y :: uint32
  by (simp add: unat_word_ariths(1))

definition counted :: "sf_op list \<Rightarrow> spoof_filter \<Rightarrow> bool" where
  "counted ops s \<longleftrightarrow>
     (\<forall>k. unat (cancels (level_at s k)) \<le> count_ops (cancels_at k) ops
        \<and> unat (fills (level_at s k)) \<le> count_ops (fills_at k) ops)"

lemma counted_step:
  assumes "counted ops s"
  shows "counted (ops @ [op]) (sf_step s op)"
  unfolding counted_def
proof
  fix k
  have c: "unat (cancels (level_at s k)) \<le> count_ops (cancels_at k) ops"
    and f: "unat (fills (level_at s k)) \<le> count_ops (fills_at k) ops"
    using assms by (auto simp: counted_def)
  note inc = unat_Suc_le[of "cancels (level_at s k)"] unat_Suc_le[of "fills (level_at s k)"]
  show "unat (cancels (level_at (sf_step s op) k)) \<le> count_ops (cancels_at k) (ops @ [op])
      \<and> unat (fills (level_at (sf_step s op) k)) \<le> count_ops (fills_at k) (ops @ [op])"
  proof (cases op)
    case (LargeAdd p t)
    then show ?thesis using on_large_add_level[of s p t k] c f by (auto simp: empty_level_def)
  next
    case (LargeCancel p t)
    then show ?thesis using on_large_cancel_level[of s p t k] c f inc
      by (cases "round_price p = k") (auto simp: empty_level_def)
  next
    case (LargeFill p)
    then show ?thesis using c f inc by (auto simp: on_large_fill_level)
  qed
qed

lemma counted_run: "counted ops (sf_run (new_spoof_filter cfg) ops)"
proof (induction ops rule: rev_induct)
  case Nil
  then show ?case
    by (simp add: counted_def sf_run_def new_spoof_filter_def level_at_def empty_level_def)
next
  case (snoc op ops)
  then show ?case using counted_step by simp
qed

section \<open>Where a flag comes from\<close>

definition justified :: "spoof_config \<Rightarrow> sf_op list \<Rightarrow> int \<Rightarrow> time_point \<Rightarrow> bool" where
  "justified cfg ops k t \<longleftrightarrow>
     (\<exists>ops1 q ops2. ops = ops1 @ LargeCancel q t # ops2 \<and> round_price q = k
        \<and> unat (min_events cfg) \<le> Suc (count_ops (cancels_at k) ops1) + count_ops (fills_at k) ops1)"

lemma justified_snoc: "justified cfg ops k t \<Longrightarrow> justified cfg (ops @ [op]) k t"
  unfolding justified_def by (metis append_assoc append_Cons)

lemma justified_new:
  assumes "counted ops s" "spoof_cfg s = cfg"
    and "min_events cfg \<le> cancels (level_at s (round_price p)) + 1 + fills (level_at s (round_price p))"
  shows "justified cfg (ops @ [LargeCancel p t]) (round_price p) t"
proof -
  let ?l = "level_at s (round_price p)"
  have "unat (min_events cfg) \<le> unat (cancels ?l + 1 + fills ?l)" using assms(3) by (simp add: word_le_nat_alt)
  also have "\<dots> \<le> Suc (unat (cancels ?l)) + unat (fills ?l)"
    using unat_plus_le[of "cancels ?l + 1" "fills ?l"] unat_Suc_le[of "cancels ?l"] by linarith
  also have "\<dots> \<le> Suc (count_ops (cancels_at (round_price p)) ops) + count_ops (fills_at (round_price p)) ops"
    using assms(1) by (simp add: counted_def add_mono)
  finally show ?thesis unfolding justified_def by (intro exI[of _ ops] exI[of _ p] exI[of _ "[]"]) simp
qed

lemma flagged_justified:
  "flagged (sf_run (new_spoof_filter cfg) ops) k = Some t \<Longrightarrow> justified cfg ops k t"
proof (induction ops arbitrary: k t rule: rev_induct)
  case Nil
  then show ?case by (simp add: sf_run_def new_spoof_filter_def)
next
  case (snoc op ops)
  let ?s = "sf_run (new_spoof_filter cfg) ops"
  have cfg: "spoof_cfg ?s = cfg" by (simp add: new_spoof_filter_def)
  show ?case
  proof (cases "flagged ?s k = Some t")
    case True
    then show ?thesis using snoc.IH by (blast intro: justified_snoc)
  next
    case False
    with snoc.prems obtain p u where op: "op = LargeCancel p u" by (cases op) auto
    with snoc.prems False cfg have "k = round_price p" "t = u"
      "min_events cfg \<le> cancels (level_at ?s (round_price p)) + 1 + fills (level_at ?s (round_price p))"
      by (auto simp: on_large_cancel_flagged Let_def split: if_splits)
    then show ?thesis using justified_new[OF counted_run cfg] op by simp
  qed
qed

lemma no_fills_level:
  assumes "\<forall>op \<in> set ops. \<forall>p. op \<noteq> LargeFill p"
  shows "fills (level_at (sf_run (new_spoof_filter cfg) ops) k) = 0"
proof -
  have "count_ops (fills_at k) ops = 0"
    using assms by (auto simp: count_ops_def filter_empty_conv elim!: fills_at.elims)
  then have "unat (fills (level_at (sf_run (new_spoof_filter cfg) ops) k)) = 0"
    using counted_run[of ops cfg] by (metis counted_def le_zero_eq)
  then show ?thesis by (simp add: unat_eq_0)
qed

lemma self_ratio:
  assumes "c \<noteq> (0 :: uint32)"
  shows "double_of_int (uint c) / double_of_int (uint c) = Fin 1"
proof -
  have "0 < uint c" "uint c < 2 ^ 32" using assms uint_lt2p[of c] by (auto simp: word_neq_0_conv word_less_def)
  then obtain i where "uint c = i" "0 < i" "i < 2 ^ 32" by blast
  then show ?thesis by (simp add: double_of_int_exact)
qed

section \<open>Properties\<close>

text \<open>
  C12: a level is only reported as spoofed for a reason. After any operations since the
  reset, if \<open>is_spoofed\<close> holds for a price then there was a large cancellation at that level
  less than \<open>flag_ttl\<close> before, and up to it at least \<open>min_events\<close> cancellations and fills
  happened at the level (the wrap-around of the 32-bit counters included).
\<close>

theorem spoof_flag_is_justified:
  assumes "is_spoofed (sf_run (new_spoof_filter cfg) ops) p now"
  shows "\<exists>ops1 q t ops2. ops = ops1 @ LargeCancel q t # ops2 \<and> round_price q = round_price p
    \<and> now - t < seconds (flag_ttl cfg)
    \<and> unat (min_events cfg) \<le> Suc (count_ops (cancels_at (round_price p)) ops1)
         + count_ops (fills_at (round_price p)) ops1"
proof -
  obtain t where t: "flagged (sf_run (new_spoof_filter cfg) ops) (round_price p) = Some t"
    "now - t < seconds (flag_ttl cfg)"
    using assms by (auto simp: is_spoofed_def new_spoof_filter_def split: option.splits)
  from flagged_justified[OF t(1)] t(2) show ?thesis unfolding justified_def by blast
qed

definition churn_example :: "sf_op list" where
  "churn_example = [LargeAdd (Fin 100) (seconds 100), LargeCancel (Fin 100) (seconds 101)]"

definition churn_config :: spoof_config where
  "churn_config = \<lparr>min_large_qty = Fin 10, max_cancel_ratio = Fin (1/2), min_events = 1,
                   spoof_window = 60, flag_ttl = 300\<rparr>"

lemma churn_example_spoofed: "is_spoofed (sf_run (new_spoof_filter churn_config) churn_example) (Fin 100) (seconds 110)"
proof -
  have r: "double_of_int 1 / double_of_int 1 = Fin 1" by (simp add: double_of_int_def)
  show ?thesis
    by (simp add: churn_example_def churn_config_def sf_run_def new_spoof_filter_def is_spoofed_def
        on_large_cancel_flagged Let_def)
      (simp add: on_large_add_def sf_evict_old_def level_at_def empty_level_def Let_def r)
qed

theorem spoof_flag_is_justified_witness:
  "\<exists>ops1 q t ops2. churn_example = ops1 @ LargeCancel q t # ops2 \<and> round_price q = round_price (Fin 100)
    \<and> seconds 110 - t < seconds 300"
  using spoof_flag_is_justified[OF churn_example_spoofed] by (auto simp: churn_config_def)

text \<open>
  Without fills the ratio test is vacuous. The strategy never reports a fill to the
  filter; then, for a positive \<open>min_events\<close> and a \<open>max_cancel_ratio\<close> of at most one, a
  cancellation flags its level exactly when the level's counter reaches \<open>min_events\<close>:
  the share of cancelled orders plays no part.
\<close>

lemma ratio_vacuous_without_fills:
  assumes "\<forall>op \<in> set ops. \<forall>q. op \<noteq> LargeFill q"
    and "0 < min_events cfg" and "max_cancel_ratio cfg \<le> Fin 1"
    and "s = sf_run (new_spoof_filter cfg) ops"
  shows "flagged (on_large_cancel s p ts) =
    (if min_events cfg \<le> cancels (level_at s (round_price p)) + 1
     then (flagged s)(round_price p \<mapsto> ts) else flagged s)"
proof -
  let ?c = "cancels (level_at s (round_price p)) + 1"
  have cfg: "spoof_cfg s = cfg" unfolding assms(4) spoof_cfg_run by (simp add: new_spoof_filter_def)
  have f: "fills (level_at s (round_price p)) = 0" unfolding assms(4) by (rule no_fills_level[OF assms(1)])
  have "?c \<noteq> 0" if "min_events cfg \<le> ?c" using that assms(2) by auto
  then show ?thesis using self_ratio[of ?c] assms(3) by (auto simp: on_large_cancel_flagged cfg f Let_def)
qed

end
