(* ===== verification/Session_Context.thy ===== *)
theory Session_Context
  imports Ofi_Types
begin

text \<open>
  \<open>src/strategy/session_context.hpp\<close>: the daily context (the narrow-range pattern NR7 and the
  average range) and the opening range breakout (ORB) that gives the direction of the day.

  Shown: the cyclic array of 30 daily ranges refines the history of daily bars, so the NR7 flag
  is the textbook predicate on that history and every index is in range; a finalized opening
  range is latched; a Long (Short) bias is a close above (below) every opening bar; a session
  whose opening range saw no bar has no bias.
\<close>

section \<open>State and operations\<close>

datatype bias = BiasLong | BiasShort | BiasNone

record session_config =
  orb_duration :: int
  nr7_period :: "8 word"
  atr_period :: "8 word"
  atr_filter_mult :: double
  session_open_utc_min :: int

definition default_session_config :: session_config where
  "default_session_config = \<lparr>orb_duration = 15, nr7_period = 7, atr_period = 14,
                             atr_filter_mult = lit (8/10), session_open_utc_min = 420\<rparr>"

abbreviation kMaxDailyHistory :: int where
  "kMaxDailyHistory \<equiv> 30"

record session_context =
  sc_cfg :: session_config
  daily_ranges :: "double list"
  daily_idx :: int
  daily_count :: int
  atr :: double
  nr7_confirmed :: bool
  orb_high :: double
  orb_low :: double
  current_day_high :: double
  current_day_low :: double
  sc_bias :: bias
  orb_finalized :: bool

definition new_session_context :: "session_config \<Rightarrow> session_context" where
  "new_session_context cfg =
     \<lparr>sc_cfg = cfg, daily_ranges = replicate 30 (Fin 0), daily_idx = 0, daily_count = 0,
      atr = Fin 0, nr7_confirmed = False, orb_high = double_lowest, orb_low = double_max,
      current_day_high = double_lowest, current_day_low = double_max,
      sc_bias = BiasNone, orb_finalized = False\<rparr>"

definition update_atr :: "session_context \<Rightarrow> double \<Rightarrow> session_context" where
  "update_atr s rng =
     (if atr s < lit (1/10^9) then s\<lparr>atr := rng\<rparr>
      else let k = Fin 1 / double_of_int (uint (atr_period (sc_cfg s)))
           in s\<lparr>atr := atr s * (Fin 1 - k) + rng * k\<rparr>)"

text \<open>The slot of the range \<open>i\<close> days before the last one.\<close>

definition nr7_idx :: "session_context \<Rightarrow> int \<Rightarrow> int" where
  "nr7_idx s i = (daily_idx s - 1 - i + kMaxDailyHistory) smod kMaxDailyHistory"

text \<open>The scan of \<open>update_nr7\<close> from \<open>i\<close> on, with \<open>n\<close> iterations left.\<close>

fun nr7_scan :: "session_context \<Rightarrow> double \<Rightarrow> int \<Rightarrow> nat \<Rightarrow> bool" where
  "nr7_scan s last_range i 0 = True"
| "nr7_scan s last_range i (Suc n) =
     (if daily_ranges s ! nat (nr7_idx s i) \<le> last_range then False
      else nr7_scan s last_range (i + 1) n)"

definition update_nr7 :: "session_context \<Rightarrow> session_context" where
  "update_nr7 s =
     (if daily_count s < uint (nr7_period (sc_cfg s)) then s\<lparr>nr7_confirmed := False\<rparr>
      else let last_idx = (daily_idx s - 1 + kMaxDailyHistory) smod kMaxDailyHistory;
               last_range = daily_ranges s ! nat last_idx
           in s\<lparr>nr7_confirmed := nr7_scan s last_range 1 (unat (nr7_period (sc_cfg s)) - 1)\<rparr>)"

definition on_daily_bar :: "session_context \<Rightarrow> bar \<Rightarrow> session_context" where
  "on_daily_bar s b =
     (let rng = bar_high b - bar_low b;
          s1 = s\<lparr>daily_ranges := (daily_ranges s)[nat (daily_idx s) := rng],
                 daily_idx := (daily_idx s + 1) smod kMaxDailyHistory,
                 daily_count := if daily_count s < kMaxDailyHistory then daily_count s + 1 else daily_count s\<rparr>
      in update_nr7 (update_atr s1 rng))"

definition to_utc_minutes :: "time_point \<Rightarrow> int" where
  "to_utc_minutes ts = wrap32 (utc_minute (to_time_t ts))"

definition finalize_orb :: "session_context \<Rightarrow> double \<Rightarrow> session_context" where
  "finalize_orb s current_price =
     (if orb_finalized s then s
      else let s1 = s\<lparr>orb_finalized := True\<rparr>;
               day_range = current_day_high s - current_day_low s
           in if lit (1/10^9) < atr s \<and> day_range < atr_filter_mult (sc_cfg s) * atr s
              then s1\<lparr>sc_bias := BiasNone\<rparr>
              else if orb_high s < lit (- (10^8)) then s1\<lparr>sc_bias := BiasNone\<rparr>
              else if orb_high s < current_price then s1\<lparr>sc_bias := BiasLong\<rparr>
              else if current_price < orb_low s then s1\<lparr>sc_bias := BiasShort\<rparr>
              else s1\<lparr>sc_bias := BiasNone\<rparr>)"

definition orb_end :: "session_config \<Rightarrow> int" where
  "orb_end cfg = session_open_utc_min cfg + wrap32 (orb_duration cfg)"

definition on_intraday_bar :: "session_context \<Rightarrow> bar \<Rightarrow> session_context" where
  "on_intraday_bar s b =
     (if orb_finalized s then s
      else let bar_min = to_utc_minutes (bar_ts b)
           in if bar_min < session_open_utc_min (sc_cfg s) then s
              else if bar_min < orb_end (sc_cfg s)
              then s\<lparr>orb_high := std_max (orb_high s) (bar_high b),
                     orb_low := std_min (orb_low s) (bar_low b),
                     current_day_high := std_max (current_day_high s) (bar_high b),
                     current_day_low := std_min (current_day_low s) (bar_low b)\<rparr>
              else finalize_orb s (bar_close b))"

definition sc_session_reset :: "session_context \<Rightarrow> session_context" where
  "sc_session_reset s =
     s\<lparr>orb_high := double_lowest, orb_low := double_max,
       current_day_high := double_lowest, current_day_low := double_max,
       sc_bias := BiasNone, orb_finalized := False\<rparr>"

definition allows_long :: "session_context \<Rightarrow> bool" where
  "allows_long s \<longleftrightarrow> sc_bias s = BiasLong"

definition allows_short :: "session_context \<Rightarrow> bool" where
  "allows_short s \<longleftrightarrow> sc_bias s = BiasShort"

definition size_multiplier :: "session_context \<Rightarrow> double" where
  "size_multiplier s = (if nr7_confirmed s then lit 1 else lit (1/2))"

datatype sc_op = DailyBar bar | IntradayBar bar | Finalize double

fun sc_step :: "session_context \<Rightarrow> sc_op \<Rightarrow> session_context" where
  "sc_step s (DailyBar b) = on_daily_bar s b"
| "sc_step s (IntradayBar b) = on_intraday_bar s b"
| "sc_step s (Finalize p) = finalize_orb s p"

section \<open>Frame\<close>

lemma update_nr7_frame [simp]:
  "sc_cfg (update_nr7 s) = sc_cfg s" "daily_ranges (update_nr7 s) = daily_ranges s"
  "daily_idx (update_nr7 s) = daily_idx s" "daily_count (update_nr7 s) = daily_count s"
  "atr (update_nr7 s) = atr s" "orb_high (update_nr7 s) = orb_high s" "orb_low (update_nr7 s) = orb_low s"
  "current_day_high (update_nr7 s) = current_day_high s"
  "current_day_low (update_nr7 s) = current_day_low s"
  "sc_bias (update_nr7 s) = sc_bias s" "orb_finalized (update_nr7 s) = orb_finalized s"
  by (simp_all add: update_nr7_def Let_def)

lemma update_atr_frame [simp]:
  "sc_cfg (update_atr s r) = sc_cfg s" "daily_ranges (update_atr s r) = daily_ranges s"
  "daily_idx (update_atr s r) = daily_idx s" "daily_count (update_atr s r) = daily_count s"
  "orb_high (update_atr s r) = orb_high s" "orb_low (update_atr s r) = orb_low s"
  "current_day_high (update_atr s r) = current_day_high s"
  "current_day_low (update_atr s r) = current_day_low s"
  "sc_bias (update_atr s r) = sc_bias s" "orb_finalized (update_atr s r) = orb_finalized s"
  by (simp_all add: update_atr_def Let_def)

lemma on_daily_bar_frame [simp]:
  "sc_cfg (on_daily_bar s b) = sc_cfg s"
  "orb_high (on_daily_bar s b) = orb_high s" "orb_low (on_daily_bar s b) = orb_low s"
  "current_day_high (on_daily_bar s b) = current_day_high s"
  "current_day_low (on_daily_bar s b) = current_day_low s"
  "sc_bias (on_daily_bar s b) = sc_bias s" "orb_finalized (on_daily_bar s b) = orb_finalized s"
  by (simp_all add: on_daily_bar_def Let_def)

lemma finalize_orb_frame [simp]:
  "sc_cfg (finalize_orb s p) = sc_cfg s"
  "daily_ranges (finalize_orb s p) = daily_ranges s" "daily_idx (finalize_orb s p) = daily_idx s"
  "daily_count (finalize_orb s p) = daily_count s" "nr7_confirmed (finalize_orb s p) = nr7_confirmed s"
  "atr (finalize_orb s p) = atr s"
  "orb_high (finalize_orb s p) = orb_high s" "orb_low (finalize_orb s p) = orb_low s"
  "orb_finalized (finalize_orb s p) = True"
  by (simp_all add: finalize_orb_def Let_def)

lemma on_intraday_bar_frame [simp]:
  "sc_cfg (on_intraday_bar s b) = sc_cfg s" "nr7_confirmed (on_intraday_bar s b) = nr7_confirmed s"
  "daily_ranges (on_intraday_bar s b) = daily_ranges s" "daily_idx (on_intraday_bar s b) = daily_idx s"
  "daily_count (on_intraday_bar s b) = daily_count s" "atr (on_intraday_bar s b) = atr s"
  by (simp_all add: on_intraday_bar_def Let_def)

lemma sc_step_cfg [simp]: "sc_cfg (sc_step s op) = sc_cfg s"
  by (cases op) simp_all

lemma sc_run_cfg [simp]: "sc_cfg (foldl sc_step s ops) = sc_cfg s"
  by (induction ops rule: rev_induct) simp_all

section \<open>The finalized opening range is a latch\<close>

interpretation orb: latch_machine sc_step orb_finalized "\<lambda>s. (sc_bias s, orb_high s, orb_low s)"
  by unfold_locales (rename_tac s e, case_tac e; simp add: on_intraday_bar_def finalize_orb_def)+

section \<open>The ring of daily ranges\<close>

definition daily_range :: "bar \<Rightarrow> double" where
  "daily_range b = bar_high b - bar_low b"

text \<open>The ring holds the last 30 of the ranges \<open>hs\<close> seen so far.\<close>

definition ring_holds :: "double list \<Rightarrow> session_context \<Rightarrow> bool" where
  "ring_holds hs s \<longleftrightarrow>
     length (daily_ranges s) = 30 \<and> daily_idx s = int (length hs mod 30)
     \<and> daily_count s = int (min (length hs) 30)
     \<and> (\<forall>j < length hs. length hs \<le> j + 30 \<longrightarrow> daily_ranges s ! (j mod 30) = hs ! j)"

lemma ring_holds_new: "ring_holds [] (new_session_context cfg)"
  by (simp add: ring_holds_def new_session_context_def)

lemma ring_holds_update [simp]:
  "ring_holds hs (update_nr7 s) = ring_holds hs s" "ring_holds hs (update_atr s r) = ring_holds hs s"
  by (simp_all add: ring_holds_def)

lemma mod30_neq:
  assumes "j < n" "Suc n \<le> j + 30"
  shows "n mod 30 \<noteq> j mod (30::nat)"
proof
  assume "n mod 30 = j mod 30"
  then have "(j + (n - j)) mod 30 = (j + 0) mod 30" using assms(1) by simp
  moreover have "n - j < 30" using assms by linarith
  ultimately have "n - j = 0" by (rule ring_index_inj) simp
  with assms(1) show False by simp
qed

lemma ring_holds_daily:
  assumes "ring_holds hs s"
  shows "ring_holds (hs @ [daily_range b]) (on_daily_bar s b)"
proof -
  let ?n = "length hs"
  let ?s1 = "s\<lparr>daily_ranges := (daily_ranges s)[nat (daily_idx s) := daily_range b],
               daily_idx := (daily_idx s + 1) smod kMaxDailyHistory,
               daily_count := if daily_count s < kMaxDailyHistory then daily_count s + 1 else daily_count s\<rparr>"
  have i: "daily_idx s = int (?n mod 30)" and c: "daily_count s = int (min ?n 30)"
    and len: "length (daily_ranges s) = 30" using assms by (auto simp: ring_holds_def)
  have "(int (?n mod 30) + 1) smod 30 = int (Suc ?n mod 30)"
    using smod_nonneg[of "int (?n mod 30) + 1" 30] by (simp add: zmod_int mod_add_right_eq add.commute)
  moreover have "daily_ranges ?s1 ! (j mod 30) = (hs @ [daily_range b]) ! j"
    if "j < Suc ?n" "Suc ?n \<le> j + 30" for j
    using that mod30_neq[of j ?n] assms i len
    by (cases "j = ?n") (auto simp: ring_holds_def nth_append)
  ultimately have "ring_holds (hs @ [daily_range b]) ?s1"
    using i c len by (simp add: ring_holds_def)
  moreover have "on_daily_bar s b = update_nr7 (update_atr ?s1 (daily_range b))"
    by (simp add: on_daily_bar_def Let_def daily_range_def)
  ultimately show ?thesis unfolding ring_holds_update by simp
qed

lemma nr7_idx_hist:
  assumes "ring_holds hs s" "0 \<le> i" "i < 30" "i < int (length hs)"
  shows "nr7_idx s i = int ((length hs - Suc (nat i)) mod 30)"
proof -
  have "nr7_idx s i = (int (length hs mod 30) - 1 - i + 30) mod 30"
    using assms(1-3) by (simp add: nr7_idx_def ring_holds_def smod_nonneg)
  also have "\<dots> = (int (length hs) mod 30 - (1 + i)) mod 30"
    using mod_add_self2[of "int (length hs) mod 30 - (1 + i)" 30] by (simp add: zmod_int algebra_simps)
  also have "\<dots> = (int (length hs) - 1 - i) mod 30" by (simp add: mod_diff_left_eq algebra_simps)
  also have "int (length hs) - 1 - i = int (length hs - Suc (nat i))" using assms(2,4) by auto
  finally show ?thesis by (simp add: zmod_int)
qed

lemma nr7_entry:
  assumes "ring_holds hs s" "0 \<le> i" "i < 30" "i < int (length hs)"
  shows "daily_ranges s ! nat (nr7_idx s i) = hs ! (length hs - Suc (nat i))"
  using assms unfolding nr7_idx_hist[OF assms] by (simp add: ring_holds_def)

lemma nr7_scan_iff:
  "nr7_scan s l i n \<longleftrightarrow> (\<forall>k. i \<le> k \<and> k < i + int n \<longrightarrow> \<not> daily_ranges s ! nat (nr7_idx s k) \<le> l)"
proof (induction n arbitrary: i)
  case (Suc n)
  have "i \<le> k \<and> k < i + int (Suc n) \<longleftrightarrow> k = i \<or> i + 1 \<le> k \<and> k < i + 1 + int n" for k by auto
  with Suc show ?case by simp blast
qed auto

lemma nr7_scan_nat:
  "nr7_scan s l 1 (p - 1) \<longleftrightarrow>
     (\<forall>i. 1 \<le> i \<and> i < p \<longrightarrow> \<not> daily_ranges s ! nat (nr7_idx s (int i)) \<le> l)"
proof -
  have "(\<forall>k. 1 \<le> k \<and> k < 1 + int (p - 1) \<longrightarrow> Q k) \<longleftrightarrow> (\<forall>i. 1 \<le> i \<and> i < p \<longrightarrow> Q (int i))" for Q
  proof (intro iffI allI impI)
    fix k assume a: "\<forall>i. 1 \<le> i \<and> i < p \<longrightarrow> Q (int i)" "1 \<le> k \<and> k < 1 + int (p - 1)"
    then have "1 \<le> nat k \<and> nat k < p" by auto
    with a(1) have "Q (int (nat k))" by blast
    with a(2) show "Q k" by simp
  qed auto
  then show ?thesis unfolding nr7_scan_iff .
qed

text \<open>The textbook predicate: the last range is below each of the \<open>p - 1\<close> before it.\<close>

definition narrowest :: "nat \<Rightarrow> double list \<Rightarrow> bool" where
  "narrowest p hs \<longleftrightarrow>
     p \<le> length hs \<and> p \<le> 30
     \<and> (\<forall>i. 1 \<le> i \<and> i < p \<longrightarrow> \<not> hs ! (length hs - Suc i) \<le> last hs)"

lemma update_nr7_iff:
  assumes "ring_holds hs s" "hs \<noteq> []"
  shows "nr7_confirmed (update_nr7 s) \<longleftrightarrow> narrowest (unat (nr7_period (sc_cfg s))) hs"
proof -
  let ?p = "unat (nr7_period (sc_cfg s))"
  have u: "uint (nr7_period (sc_cfg s)) = int ?p" by (rule uint_nat)
  have c: "daily_count s = int (min (length hs) 30)" using assms(1) by (simp add: ring_holds_def)
  have g: "daily_count s < uint (nr7_period (sc_cfg s)) \<longleftrightarrow> \<not> (?p \<le> length hs \<and> ?p \<le> 30)"
    unfolding c u of_nat_less_iff by auto
  have l: "daily_ranges s ! nat ((daily_idx s - 1 + kMaxDailyHistory) smod kMaxDailyHistory) = last hs"
    using nr7_entry[OF assms(1), of 0] assms(2) by (simp add: nr7_idx_def last_conv_nth)
  show ?thesis
  proof (cases "?p \<le> length hs \<and> ?p \<le> 30")
    case True
    have e: "daily_ranges s ! nat (nr7_idx s (int i)) = hs ! (length hs - Suc i)" if "i < ?p" for i
      using nr7_entry[OF assms(1), of "int i"] that True by simp
    have "nr7_scan s (last hs) 1 (?p - 1)
        \<longleftrightarrow> (\<forall>i. 1 \<le> i \<and> i < ?p \<longrightarrow> \<not> hs ! (length hs - Suc i) \<le> last hs)"
      unfolding nr7_scan_nat using e by (metis (no_types))
    then show ?thesis using True l by (simp add: update_nr7_def g narrowest_def Let_def)
  next
    case False
    then show ?thesis by (auto simp: update_nr7_def g narrowest_def)
  qed
qed

lemma ring_holds_run:
  "ring_holds (map daily_range bs) (foldl on_daily_bar (new_session_context cfg) bs)"
  by (induction bs rule: rev_induct) (simp_all add: ring_holds_new ring_holds_daily)

lemma daily_run_cfg [simp]: "sc_cfg (foldl on_daily_bar s bs) = sc_cfg s"
  by (induction bs rule: rev_induct) simp_all

lemma nr7_after_daily:
  assumes "ring_holds hs s"
  shows "nr7_confirmed (on_daily_bar s b) \<longleftrightarrow> narrowest (unat (nr7_period (sc_cfg s))) (hs @ [daily_range b])"
proof -
  have "ring_holds (hs @ [daily_range b]) (on_daily_bar s b)" using ring_holds_daily[OF assms] .
  then obtain s1 where s1: "on_daily_bar s b = update_nr7 s1" "sc_cfg s1 = sc_cfg s"
    by (simp add: on_daily_bar_def Let_def)
  with ring_holds_daily[OF assms, of b] have "ring_holds (hs @ [daily_range b]) s1" by simp
  from update_nr7_iff[OF this] s1 show ?thesis by simp
qed

section \<open>The opening range\<close>

definition in_orb :: "session_config \<Rightarrow> bar \<Rightarrow> bool" where
  "in_orb cfg b \<longleftrightarrow> session_open_utc_min cfg \<le> to_utc_minutes (bar_ts b) \<and> to_utc_minutes (bar_ts b) < orb_end cfg"

definition bar_ok :: "bar \<Rightarrow> bool" where
  "bar_ok b \<longleftrightarrow> bar_high b \<noteq> NaN \<and> bar_low b \<noteq> NaN"

fun orb_bars :: "session_config \<Rightarrow> sc_op list \<Rightarrow> bar list" where
  "orb_bars cfg [] = []"
| "orb_bars cfg (IntradayBar b # ops) = (if in_orb cfg b then b # orb_bars cfg ops else orb_bars cfg ops)"
| "orb_bars cfg (_ # ops) = orb_bars cfg ops"

lemma orb_bars_snoc [simp]:
  "orb_bars cfg (ops @ [op]) = orb_bars cfg ops @ orb_bars cfg [op]"
  by (induction cfg ops rule: orb_bars.induct) auto

text \<open>While the range is open it bounds the opening bars seen, and stays at its sentinel without any.\<close>

definition orb_covers :: "bar list \<Rightarrow> session_context \<Rightarrow> bool" where
  "orb_covers bs s \<longleftrightarrow>
     orb_high s \<noteq> NaN \<and> orb_low s \<noteq> NaN
     \<and> (\<forall>b \<in> set bs. bar_high b \<le> orb_high s \<and> orb_low s \<le> bar_low b)
     \<and> (bs = [] \<longrightarrow> orb_high s = double_lowest)"

lemma orb_covers_reset: "orb_covers [] (sc_session_reset s)"
  by (simp add: orb_covers_def sc_session_reset_def double_lowest_def double_max_def)

lemma orb_covers_bar:
  assumes "orb_covers bs s" "bar_ok b" "in_orb (sc_cfg s) b" "\<not> orb_finalized s"
  shows "orb_covers (bs @ [b]) (on_intraday_bar s b)"
proof -
  have o: "orb_high (on_intraday_bar s b) = std_max (orb_high s) (bar_high b)"
    "orb_low (on_intraday_bar s b) = std_min (orb_low s) (bar_low b)"
    using assms(3,4) by (simp_all add: on_intraday_bar_def in_orb_def Let_def not_less)
  have "orb_high s \<le> std_max (orb_high s) (bar_high b)" "bar_high b \<le> std_max (orb_high s) (bar_high b)"
    "std_min (orb_low s) (bar_low b) \<le> orb_low s" "std_min (orb_low s) (bar_low b) \<le> bar_low b"
    using assms(1,2) std_max_ge std_min_le by (auto simp: orb_covers_def bar_ok_def)
  with o assms(1) show ?thesis
    by (auto simp: orb_covers_def intro: double_le_trans dest: double_le_not_NaN)
qed

lemma on_intraday_bar_outside:
  "\<not> in_orb (sc_cfg s) b \<Longrightarrow> on_intraday_bar s b = s \<or> on_intraday_bar s b = finalize_orb s (bar_close b)"
  by (auto simp: on_intraday_bar_def in_orb_def Let_def)

lemma double_lowest_sentinel: "double_lowest < lit (- (10^8))"
proof -
  have "rnd (- (10^8)) = Fin (- (10^8))" using rnd_neg_numeral[of "num.Bit0 _"] by simp
  moreover have "(10::rat) ^ 8 < (2 ^ 53 - 1) * 2 ^ 971"
  proof -
    have "(10::rat) ^ 8 < 2 ^ 53 - 1" by simp
    also have "\<dots> \<le> (2 ^ 53 - 1) * 2 ^ 971" using mult_left_mono[of 1 "2 ^ 971" "2 ^ 53 - 1 :: rat"] by simp
    finally show ?thesis .
  qed
  ultimately show ?thesis by (simp add: double_lowest_def)
qed

lemma finalize_orb_bias:
  assumes "orb_covers bs s" "\<not> orb_finalized s"
  shows "sc_bias (finalize_orb s p) = BiasLong \<Longrightarrow> bs \<noteq> [] \<and> (\<forall>b \<in> set bs. bar_high b < p)"
    and "sc_bias (finalize_orb s p) = BiasShort \<Longrightarrow> bs \<noteq> [] \<and> (\<forall>b \<in> set bs. p < bar_low b)"
  using assms double_lowest_sentinel
  by (auto simp: finalize_orb_def orb_covers_def Let_def split: if_splits
      intro: double_le_less_trans double_less_le_trans)

fun final_price :: "sc_op \<Rightarrow> double option" where
  "final_price (IntradayBar b) = Some (bar_close b)"
| "final_price (Finalize p) = Some p"
| "final_price (DailyBar b) = None"

text \<open>A price that ended the range lies beyond every opening bar before it.\<close>

definition breakout :: "session_config \<Rightarrow> (bar \<Rightarrow> double \<Rightarrow> bool) \<Rightarrow> sc_op list \<Rightarrow> bool" where
  "breakout cfg beyond ops \<longleftrightarrow>
     (\<exists>ops1 op ops2 p. ops = ops1 @ op # ops2 \<and> final_price op = Some p
        \<and> orb_bars cfg ops1 \<noteq> [] \<and> (\<forall>b \<in> set (orb_bars cfg ops1). beyond b p))"

lemma breakout_snoc: "breakout cfg R ops \<Longrightarrow> breakout cfg R (ops @ [op])"
  unfolding breakout_def by (metis append_assoc append_Cons)

lemma breakout_last:
  "final_price op = Some p \<Longrightarrow> orb_bars cfg ops \<noteq> [] \<and> (\<forall>b \<in> set (orb_bars cfg ops). R b p) \<Longrightarrow>
   breakout cfg R (ops @ [op])"
  unfolding breakout_def by blast

definition bias_inv :: "session_config \<Rightarrow> sc_op list \<Rightarrow> session_context \<Rightarrow> bool" where
  "bias_inv cfg ops s \<longleftrightarrow>
     sc_cfg s = cfg
     \<and> (\<not> orb_finalized s \<longrightarrow> orb_covers (orb_bars cfg ops) s \<and> sc_bias s = BiasNone)
     \<and> (sc_bias s = BiasLong \<longrightarrow> breakout cfg (\<lambda>b p. bar_high b < p) ops)
     \<and> (sc_bias s = BiasShort \<longrightarrow> breakout cfg (\<lambda>b p. p < bar_low b) ops)"

fun op_ok :: "sc_op \<Rightarrow> bool" where
  "op_ok (IntradayBar b) = bar_ok b"
| "op_ok _ = True"

lemma bias_inv_finalize:
  assumes "bias_inv cfg ops s" "final_price op = Some p" "\<not> orb_finalized s"
  shows "bias_inv cfg (ops @ [op]) (finalize_orb s p)"
proof -
  have c: "orb_covers (orb_bars cfg ops) s" "sc_cfg s = cfg" using assms by (auto simp: bias_inv_def)
  show ?thesis
    using finalize_orb_bias[OF c(1) assms(3), of p] breakout_last[OF assms(2)] c(2)
    by (auto simp: bias_inv_def)
qed

lemma bias_inv_idle:
  "bias_inv cfg ops s \<Longrightarrow> orb_bars cfg [op] = [] \<Longrightarrow> bias_inv cfg (ops @ [op]) s"
  using breakout_snoc by (simp add: bias_inv_def)

lemma bias_inv_step:
  assumes i: "bias_inv cfg ops s" and ok: "op_ok op"
  shows "bias_inv cfg (ops @ [op]) (sc_step s op)"
proof (cases "orb_finalized s")
  case True
  then have "orb_finalized (sc_step s op)" "sc_bias (sc_step s op) = sc_bias s"
    using orb.latch_step[of s op] orb.obs_step[of s op] by auto
  then show ?thesis using i True breakout_snoc by (auto simp: bias_inv_def)
next
  case False
  show ?thesis
  proof (cases op)
    case (DailyBar b)
    then show ?thesis using i False breakout_snoc
      by (auto simp: bias_inv_def orb_covers_def)
  next
    case (Finalize p)
    then show ?thesis using bias_inv_finalize[OF i, of op p] False by simp
  next
    case op: (IntradayBar b)
    have cfg: "sc_cfg s = cfg" using i by (simp add: bias_inv_def)
    show ?thesis
    proof (cases "in_orb cfg b")
      case True
      then have "orb_covers (orb_bars cfg ops @ [b]) (on_intraday_bar s b)"
        using orb_covers_bar[of "orb_bars cfg ops" s b] i False op ok cfg by (simp add: bias_inv_def)
      moreover have "sc_bias (on_intraday_bar s b) = BiasNone" "\<not> orb_finalized (on_intraday_bar s b)"
        using True False i cfg by (auto simp: on_intraday_bar_def in_orb_def Let_def bias_inv_def)
      ultimately show ?thesis using True op cfg by (simp add: bias_inv_def)
    next
      case out: False
      have "bias_inv cfg (ops @ [op]) s" using bias_inv_idle[OF i, of op] out op by simp
      moreover have "bias_inv cfg (ops @ [op]) (finalize_orb s (bar_close b))"
        using bias_inv_finalize[OF i, of op] False op by simp
      ultimately show ?thesis using on_intraday_bar_outside[of s b] out op cfg by auto
    qed
  qed
qed

lemma bias_inv_run:
  assumes "\<forall>op \<in> set ops. op_ok op"
  shows "bias_inv (sc_cfg s) ops (foldl sc_step (sc_session_reset s) ops)"
  using assms
proof (induction ops rule: rev_induct)
  case Nil
  then show ?case using orb_covers_reset[of s] by (simp add: bias_inv_def sc_session_reset_def)
next
  case (snoc op ops)
  then have "bias_inv (sc_cfg s) ops (foldl sc_step (sc_session_reset s) ops)" "op_ok op" by simp_all
  from bias_inv_step[OF this] show ?case by simp
qed

section \<open>Properties\<close>

text \<open>
  C13: the NR7 flag is the narrow-range predicate on the whole history of daily bars. After
  any sequence of daily bars the flag says that the last range is below each of the
  \<open>nr7_period - 1\<close> ranges before it (and that so many were seen); a period beyond the 30 slots
  of the ring is never confirmed. Every slot the scan reads lies in the array.
\<close>

theorem nr7_is_narrowest_range:
  assumes "s = foldl on_daily_bar (new_session_context cfg) bs"
  shows "(nr7_confirmed (on_daily_bar s b) \<longleftrightarrow>
       narrowest (unat (nr7_period cfg)) (map daily_range (bs @ [b])))
    \<and> (\<forall>i. 0 \<le> i \<and> i < uint (nr7_period cfg) \<and> uint (nr7_period cfg) \<le> daily_count (on_daily_bar s b) \<longrightarrow>
         0 \<le> nr7_idx (on_daily_bar s b) i
         \<and> nr7_idx (on_daily_bar s b) i < int (length (daily_ranges (on_daily_bar s b))))"
proof (intro conjI allI impI)
  have r: "ring_holds (map daily_range bs) s" unfolding assms by (rule ring_holds_run)
  have "sc_cfg s = cfg" unfolding assms daily_run_cfg by (simp add: new_session_context_def)
  then show "nr7_confirmed (on_daily_bar s b) \<longleftrightarrow>
      narrowest (unat (nr7_period cfg)) (map daily_range (bs @ [b]))"
    using nr7_after_daily[OF r] by simp
  fix i assume i: "0 \<le> i \<and> i < uint (nr7_period cfg) \<and> uint (nr7_period cfg) \<le> daily_count (on_daily_bar s b)"
  note r' = ring_holds_daily[OF r, of b]
  then have "i < 30" "i < int (length (map daily_range bs @ [daily_range b]))"
    using i by (auto simp: ring_holds_def)
  with i show "0 \<le> nr7_idx (on_daily_bar s b) i"
    and "nr7_idx (on_daily_bar s b) i < int (length (daily_ranges (on_daily_bar s b)))"
    using nr7_idx_hist[OF r', of i] r' by (auto simp: ring_holds_def)
qed

definition sample_bar :: "int \<Rightarrow> int \<Rightarrow> int \<Rightarrow> int \<Rightarrow> bar" where
  "sample_bar high low close minute =
     \<lparr>bar_symbol = empty_symbol, timeframe = ''M1'', bar_open = Fin (of_int low), bar_high = Fin (of_int high),
      bar_low = Fin (of_int low), bar_close = Fin (of_int close), bar_volume = 1,
      bar_ts = minutes minute, bar_date = []\<rparr>"

theorem nr7_is_narrowest_range_witness:
  "nr7_confirmed (on_daily_bar (foldl on_daily_bar
      (new_session_context (default_session_config\<lparr>nr7_period := 3\<rparr>))
      [sample_bar 110 100 105 0, sample_bar 112 100 105 0]) (sample_bar 108 100 105 0))"
proof -
  have "narrowest 3 [Fin 10, Fin 12, Fin 8]" by (auto simp: narrowest_def nth_Cons split: nat.split)
  then show ?thesis
    using nr7_is_narrowest_range[OF refl, of "default_session_config\<lparr>nr7_period := 3\<rparr>"
        "[sample_bar 110 100 105 0, sample_bar 112 100 105 0]" "sample_bar 108 100 105 0"]
    by (simp add: daily_range_def sample_bar_def del: foldl_Cons)
qed

text \<open>
  A finalized opening range is final. Once \<open>orb_finalized\<close> holds, no daily bar, no
  intraday bar and no further \<open>finalize_orb\<close> changes the bias or the range; only
  \<open>session_reset\<close> does.
\<close>

lemma finalized_range_is_final:
  assumes "orb_finalized s"
  shows "let s' = foldl sc_step s ops
         in orb_finalized s' \<and> sc_bias s' = sc_bias s \<and> orb_high s' = orb_high s \<and> orb_low s' = orb_low s"
  using orb.latch_run[OF assms, of ops] by (simp add: Let_def)


lemma orb_example_long:
  "sc_bias (foldl sc_step (sc_session_reset (new_session_context default_session_config))
     [IntradayBar (sample_bar 110 100 105 425), IntradayBar (sample_bar 121 110 120 440)]) = BiasLong"
proof -
  have m: "to_utc_minutes 25500000000000 = 425" "to_utc_minutes 26400000000000 = 440"
    by (simp_all add: to_utc_minutes_def utc_minute_def to_time_t_def sdiv_nonneg smod_nonneg
        signed_take_bit_int_eq_self)
  have d: "double_lowest < Fin 110" "Fin 100 < double_max"
    "\<not> lit (1 / 1000000000) < Fin 0" "rnd (- (10^8)) = Fin (- (10^8))"
    using lit_nano(1) rnd_neg_numeral[of "num.Bit0 _"] double_lowest_sentinel
    by (simp_all add: double_lowest_def double_max_def double_less_asym)
  show ?thesis
    by (simp add: sc_session_reset_def new_session_context_def on_intraday_bar_def default_session_config_def
        sample_bar_def orb_end_def finalize_orb_def std_max_def std_min_def m d signed_take_bit_int_eq_self Let_def)
qed


end
