(* ===== verification/Confluence.thy ===== *)
theory Confluence
  imports Order_Book_State Trade_Flow Spoof_Filter Session_Context
begin

text \<open>
  \<open>src/strategy/confluence_strategy.hpp\<close>: the strategy that joins the four analysers. Its
  handlers return the signal (\<open>std::optional\<close> as \<open>option\<close>) and the new state; logging is left
  out. \<open>position_\<close> is an \<open>int32_t\<close>.

  Shown: exactly when an entry is signalled and what it asks for, the pause of five seconds
  between entries of a session, when an open position is closed, and two ways in which the
  handlers disable themselves: an entry price of zero switches every exit off, and a quote
  that arrives before the first opening bar leaves the session without entries.
\<close>

section \<open>State\<close>

record confluence_config =
  cs_symbol :: symbol
  base_qty :: int
  sl_ticks :: double
  tp_ticks :: double
  tick_size :: double
  cs_ob_cfg :: ob_config
  cs_tfi_cfg :: tf_config
  cs_spoof_cfg :: spoof_config
  cs_session_cfg :: session_config

record confluence_strategy =
  cs_cfg :: confluence_config
  ob_state :: order_book_state
  tfi_analyzer :: trade_flow
  spoof :: spoof_filter
  session_ctx :: session_context
  position :: int
  entry_price :: double
  current_bid :: double
  current_ask :: double
  current_mid :: double
  session_opened_today :: bool
  last_signal_ts :: time_point

definition default_confluence_config :: "symbol \<Rightarrow> confluence_config" where
  "default_confluence_config sy =
     \<lparr>cs_symbol = sy, base_qty = 1, sl_ticks = lit 30, tp_ticks = lit 90, tick_size = lit 1,
      cs_ob_cfg = default_ob_config, cs_tfi_cfg = default_tf_config,
      cs_spoof_cfg = default_spoof_config, cs_session_cfg = default_session_config\<rparr>"

definition new_confluence :: "libm \<Rightarrow> confluence_config \<Rightarrow> confluence_strategy" where
  "new_confluence M cfg =
     \<lparr>cs_cfg = cfg, ob_state = new_order_book_state M (cs_ob_cfg cfg),
      tfi_analyzer = new_trade_flow (cs_tfi_cfg cfg), spoof = new_spoof_filter (cs_spoof_cfg cfg),
      session_ctx = new_session_context (cs_session_cfg cfg),
      position = 0, entry_price = Fin 0, current_bid = Fin 0, current_ask = Fin 0, current_mid = Fin 0,
      session_opened_today = False, last_signal_ts = 0\<rparr>"

section \<open>Operations\<close>

definition no_signal :: signal where
  "no_signal = \<lparr>sig_symbol = empty_symbol, sig_direction = DirNone, sig_order_type = Market,
                sig_price = Fin 0, sig_quantity = 0, sig_reason = []\<rparr>"

datatype bar_timeframe = Daily | Intraday | Unknown

definition detect_timeframe :: "bar \<Rightarrow> bar_timeframe" where
  "detect_timeframe b =
     (if timeframe b = ''D1'' \<or> timeframe b = ''W1'' then Daily
      else if timeframe b = [] then Unknown else Intraday)"

definition on_session_open :: "confluence_strategy \<Rightarrow> confluence_strategy" where
  "on_session_open s =
     s\<lparr>session_ctx := sc_session_reset (session_ctx s),
       tfi_analyzer := tf_session_reset (tfi_analyzer s),
       spoof := sf_session_reset (spoof s),
       ob_state := ob_reset (ob_state s),
       position := 0, entry_price := Fin 0, last_signal_ts := 0\<rparr>"

definition handle_session_open :: "confluence_strategy \<Rightarrow> time_point \<Rightarrow> confluence_strategy" where
  "handle_session_open s ts =
     (let min_utc = wrap32 (utc_minute (to_time_t ts));
          open_min = session_open_utc_min (cs_session_cfg (cs_cfg s));
          s1 = (if \<not> session_opened_today s \<and> open_min \<le> min_utc \<and> min_utc < open_min + 5
                then on_session_open (s\<lparr>session_opened_today := True\<rparr>) else s)
      in if min_utc < open_min then s1\<lparr>session_opened_today := False\<rparr> else s1)"

definition close_signal :: "confluence_strategy \<Rightarrow> string \<Rightarrow> signal" where
  "close_signal s reason =
     \<lparr>sig_symbol = cs_symbol (cs_cfg s), sig_direction = DirClose, sig_order_type = Market,
      sig_price = Fin 0, sig_quantity = wrap32 \<bar>position s\<bar>, sig_reason = reason\<rparr>"

definition check_exit :: "confluence_strategy \<Rightarrow> double \<Rightarrow> signal option" where
  "check_exit s price =
     (if position s = 0 \<or> entry_price s < lit (1/10^9) then None
      else let pnl_ticks = (if 0 < position s then (price - entry_price s) / tick_size (cs_cfg s)
                            else (entry_price s - price) / tick_size (cs_cfg s))
           in if pnl_ticks < - sl_ticks (cs_cfg s) then Some (close_signal s ''sl_hit'')
              else if tp_ticks (cs_cfg s) < pnl_ticks then Some (close_signal s ''tp_hit'')
              else let conf = vote_int (ob_vote (ob_state s)) + vote_int (tf_vote (tfi_analyzer s))
                   in if 0 < position s \<and> conf = - 2 \<or> position s < 0 \<and> conf = 2
                      then Some (close_signal s ''flow_reversal'') else None)"

definition build_entry :: "confluence_strategy \<Rightarrow> ofi_vote \<Rightarrow> signal" where
  "build_entry s v =
     \<lparr>sig_symbol = cs_symbol (cs_cfg s),
      sig_direction = if is_long v then DirBuy else DirSell,
      sig_order_type = Market, sig_price = Fin 0,
      sig_quantity = cast_int 32 (double_of_int (base_qty (cs_cfg s)) * size_multiplier (session_ctx s)),
      sig_reason = if is_long v then ''confluence_long'' else ''confluence_short''\<rparr>"

definition try_enter ::
  "confluence_strategy \<Rightarrow> time_point \<Rightarrow> signal option \<times> confluence_strategy" where
  "try_enter s ts =
     (if position s \<noteq> 0 then (None, s)
      else if \<not> orb_finalized (session_ctx s) then (None, s)
      else if sc_bias (session_ctx s) = BiasNone then (None, s)
      else if ts - last_signal_ts s < seconds 5 then (None, s)
      else let mv = ob_vote (ob_state s);
               tv = tf_vote (tfi_analyzer s);
               v = \<lparr>mlofi_vote = mv, tfi_vote = tv, confluence = vote_int mv + vote_int tv\<rparr>
           in if \<not> is_strong v then (None, s)
              else if is_long v \<and> \<not> allows_long (session_ctx s) then (None, s)
              else if is_short v \<and> \<not> allows_short (session_ctx s) then (None, s)
              else if is_spoofed (spoof s) (current_bid s) ts \<or> is_spoofed (spoof s) (current_ask s) ts
              then (None, s)
              else (Some (build_entry s v), s\<lparr>last_signal_ts := ts\<rparr>))"

definition update_spoof_on_book :: "confluence_strategy \<Rightarrow> book_level_event \<Rightarrow> confluence_strategy" where
  "update_spoof_on_book s e =
     (let added_bid = new_bid_size e - old_bid_size e;
          added_ask = new_ask_size e - old_ask_size e;
          large = min_large_qty (cs_spoof_cfg (cs_cfg s));
          f0 = spoof s;
          f1 = (if large < added_bid then on_large_add f0 (ble_price e) (ble_ts e) else f0);
          f2 = (if large < added_ask then on_large_add f1 (ble_price e) (ble_ts e) else f1);
          f3 = (if large < old_bid_size e \<and> new_bid_size e < lit (1/10^9)
                then on_large_cancel f2 (ble_price e) (ble_ts e) else f2);
          f4 = (if large < old_ask_size e \<and> new_ask_size e < lit (1/10^9)
                then on_large_cancel f3 (ble_price e) (ble_ts e) else f3)
      in s\<lparr>spoof := f4\<rparr>)"

definition on_bar :: "confluence_strategy \<Rightarrow> bar \<Rightarrow> signal \<times> confluence_strategy" where
  "on_bar s b =
     (if bar_symbol b \<noteq> cs_symbol (cs_cfg s) then (no_signal, s)
      else case detect_timeframe b of
        Daily \<Rightarrow> (no_signal, s\<lparr>session_ctx := on_daily_bar (session_ctx s) b\<rparr>)
      | Intraday \<Rightarrow>
          (let s1 = handle_session_open s (bar_ts b)
           in (no_signal, s1\<lparr>session_ctx := on_intraday_bar (session_ctx s1) b\<rparr>))
      | Unknown \<Rightarrow> (no_signal, s))"

definition on_quote :: "confluence_strategy \<Rightarrow> quote \<Rightarrow> signal \<times> confluence_strategy" where
  "on_quote s q =
     (if q_symbol q \<noteq> cs_symbol (cs_cfg s) then (no_signal, s)
      else let mid = (q_bid q + q_ask q) * lit (1/2);
               s1 = handle_session_open s (q_ts q);
               s2 = (if \<not> orb_finalized (session_ctx s1)
                     then s1\<lparr>session_ctx := finalize_orb (session_ctx s1) mid\<rparr> else s1)
           in if position s2 \<noteq> 0
              then case check_exit s2 mid of Some ex \<Rightarrow> (ex, s2) | None \<Rightarrow> (no_signal, s2)
              else (no_signal, s2))"

definition on_order_update :: "confluence_strategy \<Rightarrow> order_update \<Rightarrow> confluence_strategy" where
  "on_order_update s u =
     (if upd_status u = Filled
      then let s1 = (if position s = 0 then s\<lparr>entry_price := upd_price u\<rparr> else s)
           in s1\<lparr>position := wrap32 (position s1 + (if upd_side u = Buy then upd_qty_filled u else - upd_qty_filled u))\<rparr>
      else s)"

definition on_book_event ::
  "libm \<Rightarrow> confluence_strategy \<Rightarrow> book_level_event \<Rightarrow> signal option \<times> confluence_strategy" where
  "on_book_event M s e =
     (let s1 = update_spoof_on_book s e;
          s2 = s1\<lparr>ob_state := snd (ob_on_book_event M (ob_state s1) e)\<rparr>
      in try_enter s2 (ble_ts e))"

definition on_trade_event ::
  "confluence_strategy \<Rightarrow> trade_event \<Rightarrow> signal option \<times> confluence_strategy" where
  "on_trade_event s e =
     (let s1 = s\<lparr>current_mid := te_price e\<rparr>;
          s2 = s1\<lparr>tfi_analyzer := snd (on_trade (tfi_analyzer s1) e)\<rparr>
      in try_enter s2 (te_ts e))"

definition update_bbo :: "confluence_strategy \<Rightarrow> double \<Rightarrow> double \<Rightarrow> confluence_strategy" where
  "update_bbo s bid ask =
     s\<lparr>current_bid := bid, current_ask := ask, current_mid := (bid + ask) * lit (1/2)\<rparr>"

section \<open>The strategy as a machine\<close>

datatype cs_op = CsBar bar | CsQuote quote | CsUpdate order_update
  | CsBook book_level_event | CsTrade trade_event | CsBbo double double

fun cs_step :: "libm \<Rightarrow> confluence_strategy \<Rightarrow> cs_op \<Rightarrow> confluence_strategy" where
  "cs_step M s (CsBar b) = snd (on_bar s b)"
| "cs_step M s (CsQuote q) = snd (on_quote s q)"
| "cs_step M s (CsUpdate u) = on_order_update s u"
| "cs_step M s (CsBook e) = snd (on_book_event M s e)"
| "cs_step M s (CsTrade e) = snd (on_trade_event s e)"
| "cs_step M s (CsBbo bid ask) = update_bbo s bid ask"

text \<open>The entry signal of an event, if it has one.\<close>

fun cs_entry :: "libm \<Rightarrow> confluence_strategy \<Rightarrow> cs_op \<Rightarrow> signal option" where
  "cs_entry M s (CsBook e) = fst (on_book_event M s e)"
| "cs_entry M s (CsTrade e) = fst (on_trade_event s e)"
| "cs_entry M s _ = None"

fun op_time :: "cs_op \<Rightarrow> time_point" where
  "op_time (CsBar b) = bar_ts b"
| "op_time (CsQuote q) = q_ts q"
| "op_time (CsUpdate u) = upd_ts u"
| "op_time (CsBook e) = ble_ts e"
| "op_time (CsTrade e) = te_ts e"
| "op_time (CsBbo _ _) = 0"

definition session_opens :: "confluence_strategy \<Rightarrow> time_point \<Rightarrow> bool" where
  "session_opens s ts \<longleftrightarrow>
     (let min_utc = wrap32 (utc_minute (to_time_t ts));
          open_min = session_open_utc_min (cs_session_cfg (cs_cfg s))
      in \<not> session_opened_today s \<and> open_min \<le> min_utc \<and> min_utc < open_min + 5)"

text \<open>The events that do not start a new session.\<close>

fun same_session :: "confluence_strategy \<Rightarrow> cs_op \<Rightarrow> bool" where
  "same_session s (CsBar b) =
     (bar_symbol b = cs_symbol (cs_cfg s) \<and> detect_timeframe b = Intraday \<longrightarrow> \<not> session_opens s (bar_ts b))"
| "same_session s (CsQuote q) = (q_symbol q = cs_symbol (cs_cfg s) \<longrightarrow> \<not> session_opens s (q_ts q))"
| "same_session s _ = True"

abbreviation in_session :: "libm \<Rightarrow> confluence_strategy \<Rightarrow> cs_op list \<Rightarrow> bool" where
  "in_session M \<equiv> guarded (cs_step M) same_session"

section \<open>Frame\<close>

lemma handle_session_open_cases:
  "handle_session_open s ts = on_session_open (s\<lparr>session_opened_today := True\<rparr>) \<and> session_opens s ts
   \<or> \<not> session_opens s ts \<and> (\<exists>b. handle_session_open s ts = s\<lparr>session_opened_today := b\<rparr>)"
proof (cases "session_opens s ts")
  case True
  then show ?thesis by (simp add: handle_session_open_def session_opens_def Let_def)
next
  case False
  have "\<exists>b. s = s\<lparr>session_opened_today := b\<rparr>" by (rule exI[of _ "session_opened_today s"]) simp
  with False show ?thesis by (auto simp: handle_session_open_def session_opens_def Let_def)
qed

lemma handle_session_open_quiet:
  "\<not> session_opens s ts \<Longrightarrow> \<exists>b. handle_session_open s ts = s\<lparr>session_opened_today := b\<rparr>"
  using handle_session_open_cases[of s ts] by blast

lemma update_spoof_on_book_eq: "\<exists>f. update_spoof_on_book s e = s\<lparr>spoof := f\<rparr>"
  unfolding update_spoof_on_book_def Let_def by (rule exI) (rule refl)

lemma try_enter_state: "snd (try_enter s ts) = (if fst (try_enter s ts) = None then s else s\<lparr>last_signal_ts := ts\<rparr>)"
  by (simp add: try_enter_def Let_def)

lemma try_enter_frame [simp]:
  "cs_cfg (snd (try_enter s ts)) = cs_cfg s" "session_ctx (snd (try_enter s ts)) = session_ctx s"
  "position (snd (try_enter s ts)) = position s" "entry_price (snd (try_enter s ts)) = entry_price s"
  by (simp_all add: try_enter_state)

lemma update_spoof_on_book_frame [simp]:
  "cs_cfg (update_spoof_on_book s e) = cs_cfg s" "session_ctx (update_spoof_on_book s e) = session_ctx s"
  "position (update_spoof_on_book s e) = position s" "entry_price (update_spoof_on_book s e) = entry_price s"
  "last_signal_ts (update_spoof_on_book s e) = last_signal_ts s"
  using update_spoof_on_book_eq[of s e] by auto

lemma flow_event_frame [simp]:
  "cs_cfg (snd (on_book_event M s e)) = cs_cfg s"
  "session_ctx (snd (on_book_event M s e)) = session_ctx s"
  "position (snd (on_book_event M s e)) = position s"
  "entry_price (snd (on_book_event M s e)) = entry_price s"
  "cs_cfg (snd (on_trade_event s t)) = cs_cfg s"
  "session_ctx (snd (on_trade_event s t)) = session_ctx s"
  "position (snd (on_trade_event s t)) = position s"
  "entry_price (snd (on_trade_event s t)) = entry_price s"
  by (simp_all add: on_book_event_def on_trade_event_def Let_def)

definition quote_mid :: "quote \<Rightarrow> double" where
  "quote_mid q = (q_bid q + q_ask q) * lit (1/2)"

lemma on_quote_state:
  "snd (on_quote s q) =
     (if q_symbol q \<noteq> cs_symbol (cs_cfg s) then s
      else (handle_session_open s (q_ts q))
        \<lparr>session_ctx := finalize_orb (session_ctx (handle_session_open s (q_ts q))) (quote_mid q)\<rparr>)"
proof -
  have "orb_finalized c \<Longrightarrow> finalize_orb c p = c" for c p by (simp add: finalize_orb_def)
  then show ?thesis by (auto simp: on_quote_def quote_mid_def Let_def split: option.split)
qed

text \<open>The entry order in the direction of the day, and the conditions under which it is sent.\<close>

definition entry_order :: "confluence_config \<Rightarrow> bool \<Rightarrow> bool \<Rightarrow> signal" where
  "entry_order cfg nr7 long =
     \<lparr>sig_symbol = cs_symbol cfg, sig_direction = if long then DirBuy else DirSell,
      sig_order_type = Market, sig_price = Fin 0,
      sig_quantity = cast_int 32 (double_of_int (base_qty cfg) * (if nr7 then Fin 1 else Fin (1/2))),
      sig_reason = if long then ''confluence_long'' else ''confluence_short''\<rparr>"

definition entry_condition :: "confluence_strategy \<Rightarrow> time_point \<Rightarrow> bool \<Rightarrow> bool" where
  "entry_condition s ts long \<longleftrightarrow>
     position s = 0 \<and> orb_finalized (session_ctx s)
     \<and> sc_bias (session_ctx s) = (if long then BiasLong else BiasShort)
     \<and> ob_vote (ob_state s) = (if long then VLong else VShort)
     \<and> tf_vote (tfi_analyzer s) = (if long then VLong else VShort)
     \<and> \<not> is_spoofed (spoof s) (current_bid s) ts \<and> \<not> is_spoofed (spoof s) (current_ask s) ts"

lemma entry_condition_cong:
  "entry_condition (s\<lparr>last_signal_ts := t\<rparr>) ts long = entry_condition s ts long"
  by (simp add: entry_condition_def)

lemma build_entry_order:
  "build_entry s v = entry_order (cs_cfg s) (nr7_confirmed (session_ctx s)) (is_long v)"
  by (simp add: build_entry_def entry_order_def size_multiplier_def)

lemma try_enter_iff:
  "try_enter s ts = (Some g, s') \<longleftrightarrow>
     seconds 5 \<le> ts - last_signal_ts s \<and> s' = s\<lparr>last_signal_ts := ts\<rparr>
     \<and> (\<exists>long. entry_condition s ts long \<and> g = entry_order (cs_cfg s) (nr7_confirmed (session_ctx s)) long)"
proof (cases "position s = 0 \<and> orb_finalized (session_ctx s) \<and> seconds 5 \<le> ts - last_signal_ts s")
  case True
  then show ?thesis
    by (cases "sc_bias (session_ctx s)"; cases "ob_vote (ob_state s)"; cases "tf_vote (tfi_analyzer s)")
      (auto simp: try_enter_def entry_condition_def Let_def is_strong_def is_long_def is_short_def
        allows_long_def allows_short_def build_entry_order)
next
  case False
  then show ?thesis by (auto simp: try_enter_def entry_condition_def)
qed

text \<open>Every entry signal comes from \<open>try_enter\<close> at the time of the event.\<close>

lemma cs_entry_try:
  assumes "cs_entry M s op = Some g"
  obtains s2 where "try_enter s2 (op_time op) = (Some g, cs_step M s op)"
    and "session_ctx s2 = session_ctx s" "position s2 = position s" "cs_cfg s2 = cs_cfg s"
    and "last_signal_ts s2 = last_signal_ts s"
proof (cases op)
  case (CsBook e)
  let ?s1 = "update_spoof_on_book s e"
  let ?s2 = "?s1\<lparr>ob_state := snd (ob_on_book_event M (ob_state ?s1) e)\<rparr>"
  show ?thesis by (rule that[of ?s2]) (use assms CsBook in \<open>simp_all add: on_book_event_def Let_def prod_eq_iff\<close>)
next
  case (CsTrade e)
  let ?s2 = "s\<lparr>current_mid := te_price e, tfi_analyzer := snd (on_trade (tfi_analyzer s) e)\<rparr>"
  show ?thesis by (rule that[of ?s2]) (use assms CsTrade in \<open>simp_all add: on_trade_event_def Let_def prod_eq_iff\<close>)
qed (use assms in auto)

section \<open>What holds within a session\<close>

text \<open>The bias, once the opening range is finalized, stays until the next session.\<close>

lemma session_bias_step:
  assumes "same_session s op" "orb_finalized (session_ctx s)"
  shows "orb_finalized (session_ctx (cs_step M s op)) \<and> sc_bias (session_ctx (cs_step M s op)) = sc_bias (session_ctx s)"
proof (cases op)
  case (CsBar b)
  show ?thesis
  proof (cases "bar_symbol b = cs_symbol (cs_cfg s) \<and> detect_timeframe b = Intraday")
    case True
    with assms(1) CsBar obtain c where "handle_session_open s (bar_ts b) = s\<lparr>session_opened_today := c\<rparr>"
      using handle_session_open_quiet by auto
    then show ?thesis using True CsBar assms(2) by (simp add: on_bar_def on_intraday_bar_def Let_def)
  next
    case False
    then show ?thesis using CsBar assms(2) by (auto simp: on_bar_def split: bar_timeframe.split)
  qed
next
  case (CsQuote q)
  show ?thesis
  proof (cases "q_symbol q = cs_symbol (cs_cfg s)")
    case True
    with assms(1) CsQuote obtain c where "handle_session_open s (q_ts q) = s\<lparr>session_opened_today := c\<rparr>"
      using handle_session_open_quiet by auto
    then show ?thesis using True CsQuote assms(2) by (simp add: on_quote_state finalize_orb_def)
  next
    case False
    then show ?thesis using CsQuote assms(2) by (simp add: on_quote_state)
  qed
qed (use assms in \<open>auto simp: on_order_update_def update_bbo_def Let_def\<close>)

interpretation session_bias: guarded_machine "cs_step M" same_session
  "\<lambda>s. orb_finalized (session_ctx s) \<and> sc_bias (session_ctx s) = B"
  by unfold_locales (use session_bias_step in blast)

lemma no_bias_no_entry:
  assumes "sc_bias (session_ctx s) = BiasNone"
  shows "cs_entry M s op = None"
proof (rule ccontr)
  assume "cs_entry M s op \<noteq> None"
  then obtain g where "cs_entry M s op = Some g" by auto
  then show False
    by (rule cs_entry_try) (use assms in \<open>auto simp: try_enter_iff entry_condition_def split: if_splits\<close>)
qed

text \<open>The time of the last entry never goes back within a session.\<close>

lemma entry_time:
  assumes "cs_entry M s op = Some g"
  shows "seconds 5 \<le> op_time op - last_signal_ts s" and "last_signal_ts (cs_step M s op) = op_time op"
  by (rule cs_entry_try[OF assms], auto simp: try_enter_iff)+

lemma flow_event_no_entry:
  "fst (on_book_event M s e) = None \<Longrightarrow> last_signal_ts (snd (on_book_event M s e)) = last_signal_ts s"
  "fst (on_trade_event s t) = None \<Longrightarrow> last_signal_ts (snd (on_trade_event s t)) = last_signal_ts s"
  by (simp_all add: on_book_event_def on_trade_event_def Let_def try_enter_state)

lemma no_entry_time:
  assumes "same_session s op" "cs_entry M s op = None"
  shows "last_signal_ts (cs_step M s op) = last_signal_ts s"
proof (cases op)
  case (CsBar b)
  then show ?thesis using assms handle_session_open_quiet[of s "bar_ts b"]
    by (auto simp: on_bar_def Let_def split: bar_timeframe.split)
next
  case (CsQuote q)
  then show ?thesis using assms handle_session_open_quiet[of s "q_ts q"]
    by (cases "q_symbol q = cs_symbol (cs_cfg s)") (auto simp: on_quote_state)
qed (use assms flow_event_no_entry in \<open>auto simp: on_order_update_def update_bbo_def Let_def\<close>)

lemma last_signal_step:
  "same_session s op \<Longrightarrow> last_signal_ts s \<le> last_signal_ts (cs_step M s op)"
  using no_entry_time[of s op M] entry_time[of M s op] by (cases "cs_entry M s op") auto

interpretation cooldown: guarded_machine "cs_step M" same_session "\<lambda>s. t \<le> last_signal_ts s"
  by unfold_locales (use last_signal_step order_trans in blast)

text \<open>A position without a positive entry price keeps none as long as no order is filled.\<close>

definition no_exit :: "confluence_strategy \<Rightarrow> bool" where
  "no_exit s \<longleftrightarrow> position s = 0 \<or> entry_price s < lit (1/10^9)"

lemma no_exit_session: "no_exit s \<Longrightarrow> no_exit (handle_session_open s ts)"
  using handle_session_open_cases[of s ts] by (auto simp: no_exit_def on_session_open_def)

lemma no_exit_frame:
  "position s' = position s \<Longrightarrow> entry_price s' = entry_price s \<Longrightarrow> no_exit s' = no_exit s"
  by (simp add: no_exit_def)

lemma no_exit_ctx [simp]: "no_exit (s\<lparr>session_ctx := c\<rparr>) = no_exit s"
  by (simp add: no_exit_def)

lemma no_exit_step:
  assumes "no_exit s" "\<forall>u. op \<noteq> CsUpdate u"
  shows "no_exit (cs_step M s op)"
proof (cases op)
  case (CsBar b)
  then show ?thesis using assms(1) no_exit_session by (simp add: on_bar_def Let_def split: bar_timeframe.split)
next
  case (CsQuote q)
  then show ?thesis using assms(1) no_exit_session
    by (cases "q_symbol q = cs_symbol (cs_cfg s)") (auto simp: on_quote_state)
qed (use assms in \<open>auto simp: update_bbo_def no_exit_def\<close>)

interpretation unpriced: guarded_machine "cs_step M" "\<lambda>_ op. \<forall>u. op \<noteq> CsUpdate u" no_exit
  by unfold_locales (rule no_exit_step)

lemma no_exit_no_signal:
  assumes "no_exit s"
  shows "fst (on_quote s q) = no_signal"
  using no_exit_session[OF assms, of "q_ts q"]
  by (auto simp: on_quote_def Let_def check_exit_def no_exit_def)

lemma try_enter_fst:
  "fst (try_enter s ts) = Some g \<longleftrightarrow>
     seconds 5 \<le> ts - last_signal_ts s
     \<and> (\<exists>long. entry_condition (snd (try_enter s ts)) ts long
          \<and> g = entry_order (cs_cfg s) (nr7_confirmed (session_ctx s)) long)"
proof -
  have "fst (try_enter s ts) = Some g \<longleftrightarrow> try_enter s ts = (Some g, s\<lparr>last_signal_ts := ts\<rparr>)"
    using try_enter_state[of s ts] by (auto simp: prod_eq_iff)
  moreover have "entry_condition (snd (try_enter s ts)) ts long = entry_condition s ts long" for long
    by (simp add: try_enter_state entry_condition_cong)
  ultimately show ?thesis by (simp add: try_enter_iff)
qed

section \<open>Exits and quantities\<close>

definition pnl_ticks :: "confluence_strategy \<Rightarrow> double \<Rightarrow> double" where
  "pnl_ticks s price =
     (if 0 < position s then price - entry_price s else entry_price s - price) / tick_size (cs_cfg s)"

definition flow_against :: "confluence_strategy \<Rightarrow> bool" where
  "flow_against s \<longleftrightarrow>
     (let v = (if 0 < position s then VShort else VLong)
      in ob_vote (ob_state s) = v \<and> tf_vote (tfi_analyzer s) = v)"

definition exit_reason :: "confluence_strategy \<Rightarrow> double \<Rightarrow> string option" where
  "exit_reason s price =
     (if position s = 0 \<or> entry_price s < lit (1/10^9) then None
      else if pnl_ticks s price < - sl_ticks (cs_cfg s) then Some ''sl_hit''
      else if tp_ticks (cs_cfg s) < pnl_ticks s price then Some ''tp_hit''
      else if flow_against s then Some ''flow_reversal'' else None)"

lemma check_exit_reason: "check_exit s price = map_option (close_signal s) (exit_reason s price)"
proof (cases "0 < position s")
  case True
  then show ?thesis
    by (simp add: check_exit_def exit_reason_def pnl_ticks_def flow_against_def Let_def vote_sum)
next
  case False
  then show ?thesis
    by (auto simp: check_exit_def exit_reason_def pnl_ticks_def flow_against_def Let_def vote_sum)
qed

lemma quantity_of_base:
  assumes "0 \<le> b" "b < 2 ^ 31"
  shows "cast_int 32 (double_of_int b * (if nr7 then Fin 1 else Fin (1/2))) = (if nr7 then b else b div 2)"
proof -
  have d: "double_of_int b = Fin (of_int b)" using assms by (simp add: double_of_int_exact)
  have "rnd (of_int b) = Fin (of_int b)" "rnd (of_int b / 2) = Fin (of_int b / 2)"
    using assms rnd_int[of b] rnd_half_int[of b] by simp_all
  moreover have "\<lfloor>rat_of_int b / 2\<rfloor> = b div 2"
    using floor_divide_of_int_eq[of b 2, where ?'a = rat] by simp
  moreover have "b div 2 \<le> b" "- 2147483648 \<le> b div 2"
    using assms(1) pos_imp_zdiv_nonneg_iff[of 2 b] by linarith+
  ultimately show ?thesis using assms d by (simp add: cast_int_def trunc_rat_def Let_def)
qed

lemma finalize_after_reset: "sc_bias (finalize_orb (sc_session_reset c) p) = BiasNone"
  using finalize_orb_bias[OF orb_covers_reset, of c p]
  by (cases "sc_bias (finalize_orb (sc_session_reset c) p)") (auto simp: sc_session_reset_def)

lemma no_exit_unpriced:
  "position s = 0 \<Longrightarrow> upd_status u = Filled \<Longrightarrow> upd_price u = Fin 0 \<Longrightarrow> no_exit (on_order_update s u)"
  using lit_nano by (simp add: no_exit_def on_order_update_def Let_def)

lemma no_exit_run:
  assumes "no_exit s" "\<forall>op \<in> set ops. \<forall>u. op \<noteq> CsUpdate u"
  shows "fst (on_quote (foldl (cs_step M) s ops) q) = no_signal"
proof -
  have "guarded (cs_step M) (\<lambda>_ op. \<forall>u. op \<noteq> CsUpdate u) t ops" for t
    using assms(2) by (induction ops arbitrary: t) auto
  with assms(1) have "no_exit (foldl (cs_step M) s ops)" by (rule unpriced.guarded_run)
  then show ?thesis by (rule no_exit_no_signal)
qed

section \<open>A worked session\<close>

definition si_symbol :: symbol where
  "si_symbol = \<lparr>security_code = ''SiH6'', security_board = ''RTSX''\<rparr>"

text \<open>A flat strategy whose opening range broke out upwards and whose book score is high.\<close>

definition armed :: confluence_strategy where
  "armed = (let s = new_confluence step_libm (default_confluence_config si_symbol)
            in s\<lparr>session_ctx := (session_ctx s)\<lparr>orb_finalized := True, sc_bias := BiasLong\<rparr>,
                 ob_state := (ob_state s)\<lparr>score := Fin 8\<rparr>, session_opened_today := True\<rparr>)"

lemma armed_fields [simp]:
  "cs_cfg armed = default_confluence_config si_symbol" "position armed = 0" "last_signal_ts armed = 0"
  "orb_finalized (session_ctx armed)" "sc_bias (session_ctx armed) = BiasLong"
  "nr7_confirmed (session_ctx armed) = False" "spoof armed = new_spoof_filter default_spoof_config"
  "tfi_analyzer armed = new_trade_flow default_tf_config" "session_opened_today armed"
  by (simp_all add: armed_def new_confluence_def default_confluence_config_def new_session_context_def Let_def)

lemma armed_ob_vote [simp]: "ob_vote (ob_state armed) = VLong"
  by (simp add: armed_def new_confluence_def default_confluence_config_def new_order_book_state_def
      ob_vote_def default_ob_config_def Let_def)

definition buy_at :: "int \<Rightarrow> cs_op" where
  "buy_at sec = CsTrade (trade_at sec True 3)"

text \<open>A strategy that sees one buy order in its trade window votes long.\<close>

lemma one_buy_votes_long:
  assumes "tf_cfg t = default_tf_config" "window t = [trade_at sec True 3]"
  shows "tf_vote t = VLong"
proof -
  have "lit (3/10) \<le> Fin (1/2)" by (rule rnd_le) (simp_all add: is_double_def)
  moreover have "normalized_tfi t = Fin 1"
    using lit_nano assms(2) double_less_le_trans[of "Fin 3" "lit (1/10^9)" "Fin 1"]
    by (auto simp: normalized_tfi_def trade_at_def Let_def)
  ultimately show ?thesis using assms(1)
    by (cases "lit (3/10)") (auto simp: tf_vote_def default_tf_config_def)
qed

lemma armed_entry:
  assumes "session_ctx s = session_ctx armed" "cs_cfg s = cs_cfg armed" "ob_state s = ob_state armed"
    "spoof s = spoof armed" "position s = 0" "last_signal_ts s \<le> seconds sec - seconds 5"
    "tf_cfg (tfi_analyzer s) = default_tf_config"
    "\<forall>t \<in> set (window (tfi_analyzer s)). te_ts t < seconds sec - seconds 5"
  shows "cs_entry M s (buy_at sec) = Some (entry_order (cs_cfg armed) False True)"
proof -
  let ?t = "snd (on_trade (tfi_analyzer s) (trade_at sec True 3))"
  have "dropWhile (\<lambda>t. te_ts t < te_ts (trade_at sec True 3) - millis (tfi_window default_tf_config)) (window (tfi_analyzer s)) = []"
    using assms(8) by (simp add: dropWhile_eq_Nil_conv trade_at_def default_tf_config_def)
  then have "tf_vote ?t = VLong" by (intro one_buy_votes_long[of _ sec]) (simp_all add: assms(7))
  then show ?thesis using assms
    by (simp add: buy_at_def on_trade_event_def Let_def try_enter_fst)
      (auto simp: trade_at_def try_enter_state entry_condition_def is_spoofed_def new_spoof_filter_def intro!: exI[of _ True])
qed

section \<open>Properties\<close>

text \<open>
  C15: exactly when the strategy signals an entry. Only a book or a trade event can; it does
  when, with the event taken into account, the strategy is flat, the opening range is
  finalized, its bias, the book vote and the trade vote all point the same way, the last entry
  is at least five seconds ago and neither side of the BBO is flagged as spoofed. The signal
  is then a market order in that direction.
\<close>

theorem entry_iff_confluence:
  "cs_entry M s op = Some g \<longleftrightarrow>
     ((\<exists>e. op = CsBook e) \<or> (\<exists>e. op = CsTrade e))
     \<and> seconds 5 \<le> op_time op - last_signal_ts s
     \<and> (\<exists>long. entry_condition (cs_step M s op) (op_time op) long
          \<and> g = entry_order (cs_cfg s) (nr7_confirmed (session_ctx s)) long)"
proof (cases op)
  case (CsBook e)
  then show ?thesis by (simp add: on_book_event_def Let_def try_enter_fst)
next
  case (CsTrade e)
  then show ?thesis by (simp add: on_trade_event_def Let_def try_enter_fst)
qed auto

text \<open>
  C16: entries of a session are at least five seconds apart, whatever quotes, bars, book and
  trade events, order updates and further entries come between them.
\<close>

theorem entries_five_seconds_apart:
  assumes "cs_entry M s op = Some g" and "in_session M (cs_step M s op) ops"
    and "s2 = foldl (cs_step M) (cs_step M s op) ops" and "cs_entry M s2 op2 = Some g2"
  shows "seconds 5 \<le> op_time op2 - op_time op"
proof -
  have "op_time op \<le> last_signal_ts s2"
    unfolding assms(3) by (rule cooldown.guarded_run) (use assms(2) entry_time(2)[OF assms(1)] in auto)
  with entry_time(1)[OF assms(4)] show ?thesis by simp
qed

theorem entries_five_seconds_apart_witness:
  "seconds 5 \<le> op_time (buy_at 20) - op_time (buy_at 10)"
proof -
  have e1: "cs_entry step_libm armed (buy_at 10) = Some (entry_order (cs_cfg armed) False True)"
    by (rule armed_entry) (simp_all add: new_trade_flow_def)
  let ?s = "cs_step step_libm armed (buy_at 10)"
  have t: "tfi_analyzer ?s = snd (on_trade (tfi_analyzer armed) (trade_at 10 True 3))"
    "ob_state ?s = ob_state armed" "spoof ?s = spoof armed"
    by (simp_all add: buy_at_def on_trade_event_def Let_def try_enter_state del: armed_fields)
  have l: "last_signal_ts ?s = seconds 10" using entry_time(2)[OF e1] by (simp add: buy_at_def trade_at_def)
  have e2: "cs_entry step_libm ?s (buy_at 20) = Some (entry_order (cs_cfg armed) False True)"
    by (rule armed_entry) (use t l in \<open>simp_all add: new_trade_flow_def buy_at_def trade_at_def\<close>)
  show ?thesis
    by (rule entries_five_seconds_apart[OF e1 _ refl, of "[]"]) (use e2 in simp_all)
qed

lemma quote_closes:
  assumes "q_symbol q = cs_symbol (cs_cfg s)" and "\<not> session_opens s (q_ts q)"
  shows "fst (on_quote s q) = (case exit_reason s (quote_mid q) of None \<Rightarrow> no_signal | Some r \<Rightarrow> close_signal s r)"
    and "position (snd (on_quote s q)) = position s"
proof -
  obtain b where h: "handle_session_open s (q_ts q) = s\<lparr>session_opened_today := b\<rparr>"
    using handle_session_open_quiet[OF assms(2)] by blast
  define s2 where "s2 = (if \<not> orb_finalized (session_ctx s)
    then s\<lparr>session_opened_today := b, session_ctx := finalize_orb (session_ctx s) (quote_mid q)\<rparr>
    else s\<lparr>session_opened_today := b\<rparr>)"
  have s2: "exit_reason s2 p = exit_reason s p" "close_signal s2 = close_signal s" "position s2 = position s" for p
    by (auto simp: s2_def exit_reason_def pnl_ticks_def flow_against_def close_signal_def fun_eq_iff)
  have q: "on_quote s q = ((if position s2 \<noteq> 0
      then (case check_exit s2 (quote_mid q) of Some ex \<Rightarrow> ex | None \<Rightarrow> no_signal) else no_signal), s2)"
    using assms(1) h by (auto simp: on_quote_def s2_def quote_mid_def Let_def split: option.split)
  moreover have "position s = 0 \<Longrightarrow> exit_reason s p = None" for p by (simp add: exit_reason_def)
  ultimately show "fst (on_quote s q) = (case exit_reason s (quote_mid q) of None \<Rightarrow> no_signal | Some r \<Rightarrow> close_signal s r)"
    unfolding check_exit_reason by (auto simp: s2 split: option.split)
  show "position (snd (on_quote s q)) = position s" by (simp add: q s2)
qed

lemma quote_opens_session:
  assumes "q_symbol q = cs_symbol (cs_cfg s)" and "session_opens s (q_ts q)"
  shows "fst (on_quote s q) = no_signal" and "position (snd (on_quote s q)) = 0"
proof -
  have "handle_session_open s (q_ts q) = on_session_open (s\<lparr>session_opened_today := True\<rparr>)"
    using handle_session_open_cases[of s "q_ts q"] assms(2) by blast
  then show "fst (on_quote s q) = no_signal" "position (snd (on_quote s q)) = 0"
    using assms(1) by (simp_all add: on_quote_def on_session_open_def Let_def)
qed

text \<open>
  C17: when a quote closes the position. On a quote of the strategy's instrument that starts no
  new session the answer is a market order closing the whole position when the profit in
  ticks is below \<open>-sl_ticks\<close>, above \<open>tp_ticks\<close>, or both votes point against the position,
  in this order; otherwise, without a position, and without a positive entry price, there is no
  signal. A quote that starts a session closes nothing, whatever the price: it makes the strategy
  forget its position. A quote of another instrument does nothing.
\<close>

theorem quote_exit:
  "(if q_symbol q \<noteq> cs_symbol (cs_cfg s) then on_quote s q = (no_signal, s)
    else if session_opens s (q_ts q) then fst (on_quote s q) = no_signal \<and> position (snd (on_quote s q)) = 0
    else position (snd (on_quote s q)) = position s
      \<and> fst (on_quote s q) =
          (case exit_reason s (quote_mid q) of
             None \<Rightarrow> no_signal
           | Some r \<Rightarrow> \<lparr>sig_symbol = cs_symbol (cs_cfg s), sig_direction = DirClose, sig_order_type = Market,
                         sig_price = Fin 0, sig_quantity = wrap32 \<bar>position s\<bar>, sig_reason = r\<rparr>))"
  using quote_closes[of q s] quote_opens_session[of q s]
  by (auto simp: on_quote_def close_signal_def split: option.split)

definition quote_at :: "int \<Rightarrow> int \<Rightarrow> quote" where
  "quote_at price minute = \<lparr>q_symbol = si_symbol, q_bid = Fin (of_int price), q_ask = Fin (of_int price),
                           q_last = Fin (of_int price), q_volume = 1, q_ts = minutes minute\<rparr>"

lemma quote_at_fields [simp]: "q_symbol (quote_at p m) = si_symbol" "q_ts (quote_at p m) = minutes m"
  by (simp_all add: quote_at_def)

text \<open>
  A fill reported without a price switches the exits off. If a flat strategy is told of a
  fill at price zero, then, until a further order update, no sequence of bars, quotes, book and
  trade events makes any quote close the position: neither stop loss nor take profit nor flow
  reversal fires.
\<close>

lemma unpriced_fill_never_exits:
  assumes "position s = 0" and "upd_status u = Filled" and "upd_price u = Fin 0"
    and "\<forall>op \<in> set ops. \<forall>u. op \<noteq> CsUpdate u"
  shows "fst (on_quote (foldl (cs_step M) (on_order_update s u) ops) q) = no_signal"
  by (rule no_exit_run[OF no_exit_unpriced[OF assms(1-3)] assms(4)])

definition unpriced_fill :: order_update where
  "unpriced_fill = \<lparr>order_no = 7, transaction_id = 7, upd_symbol = si_symbol, upd_client_id = ''acc'',
     upd_side = Buy, upd_status = Filled, upd_type = Market, upd_price = Fin 0, upd_qty_total = 1,
     upd_qty_filled = 1, upd_message = [], upd_ts = seconds 10\<rparr>"

text \<open>
  C18: a session that opens with a quote has no entries. If the event that starts the session
  is a quote of the instrument (not a bar), the opening range is finalized on the spot with no bar in
  it, and no event of the session signals an entry.
\<close>

theorem quote_first_session_has_no_entries:
  assumes "q_symbol q = cs_symbol (cs_cfg s)" and "session_opens s (q_ts q)"
    and "s1 = snd (on_quote s q)" and "in_session M s1 ops"
  shows "cs_entry M (foldl (cs_step M) s1 ops) op = None"
proof -
  have "session_ctx s1 = finalize_orb (sc_session_reset (session_ctx s)) (quote_mid q)"
    using assms(1-3) handle_session_open_cases[of s "q_ts q"]
    by (auto simp: on_quote_state on_session_open_def)
  then have "orb_finalized (session_ctx s1) \<and> sc_bias (session_ctx s1) = BiasNone"
    using finalize_after_reset by simp
  from session_bias.guarded_run[OF this assms(4)] show ?thesis by (intro no_bias_no_entry) simp
qed

theorem quote_first_session_has_no_entries_witness:
  "cs_entry step_libm (foldl (cs_step step_libm)
     (snd (on_quote (new_confluence step_libm (default_confluence_config si_symbol)) (quote_at 100 421)))
     [buy_at 26000]) (buy_at 27000) = None"
proof (rule quote_first_session_has_no_entries[OF _ _ refl])
  have "wrap32 (utc_minute (to_time_t (minutes 421))) = 421"
    by (simp add: utc_minute_def to_time_t_def sdiv_nonneg smod_nonneg signed_take_bit_int_eq_self)
  then show "session_opens (new_confluence step_libm (default_confluence_config si_symbol)) (q_ts (quote_at 100 421))"
    by (simp add: session_opens_def new_confluence_def default_confluence_config_def default_session_config_def)
qed (simp_all add: new_confluence_def default_confluence_config_def buy_at_def)

text \<open>
  The size of an entry is \<open>base_qty\<close> on an NR7 day and half of it, rounded down,
  otherwise. With the default \<open>base_qty\<close> of one, entries outside NR7 days ask for zero lots.
\<close>

lemma entry_quantity:
  assumes "cs_entry M s op = Some g" and "0 \<le> base_qty (cs_cfg s)" and "base_qty (cs_cfg s) < 2 ^ 31"
  shows "sig_quantity g =
    (if nr7_confirmed (session_ctx s) then base_qty (cs_cfg s) else base_qty (cs_cfg s) div 2)"
proof -
  obtain long where "g = entry_order (cs_cfg s) (nr7_confirmed (session_ctx s)) long"
    using assms(1) by (rule cs_entry_try) (auto simp: try_enter_iff)
  then show ?thesis using quantity_of_base[OF assms(2,3)] by (simp add: entry_order_def)
qed

end
