(* ===== verification/Cxx_Text.thy ===== *)
theory Cxx_Text
  imports Interfaces
begin

text \<open>
  The text conversions of the C++ standard library that the program uses: \<open>std::to_string\<close> on
  integers, \<open>std::stoi\<close>, \<open>std::stol\<close> and \<open>std::stod\<close>, and the searches \<open>find\<close> and
  \<open>rfind\<close> of a character. A thrown \<open>invalid_argument\<close> or \<open>out_of_range\<close> is \<open>None\<close>: every
  call of the program catches both alike.
\<close>

section \<open>Printing integers\<close>

definition digit_char :: "nat \<Rightarrow> char" where
  "digit_char d = char_of (48 + d)"

fun nat_to_string :: "nat \<Rightarrow> string" where
  "nat_to_string n =
     (if n < 10 then [digit_char n] else nat_to_string (n div 10) @ [digit_char (n mod 10)])"

declare nat_to_string.simps [simp del]

definition int_to_string :: "int \<Rightarrow> string" where
  "int_to_string i = (if i < 0 then CHR ''-'' # nat_to_string (nat (- i)) else nat_to_string (nat i))"

section \<open>Parsing integers\<close>

definition is_digit :: "char \<Rightarrow> bool" where
  "is_digit c \<longleftrightarrow> 48 \<le> (of_char c :: nat) \<and> (of_char c :: nat) \<le> 57"

definition digit_val :: "char \<Rightarrow> nat" where
  "digit_val c = of_char c - 48"

definition digits_val :: "string \<Rightarrow> nat" where
  "digits_val ds = foldl (\<lambda>n c. 10 * n + digit_val c) 0 ds"

text \<open>\<open>isspace\<close> in the C locale: space, tab, line feed, vertical tab, form feed, return.\<close>

definition is_space :: "char \<Rightarrow> bool" where
  "is_space c \<longleftrightarrow> (of_char c :: nat) \<in> {32, 9, 10, 11, 12, 13}"

definition take_sign :: "string \<Rightarrow> bool \<times> string" where
  "take_sign s =
     (case s of
        c # cs \<Rightarrow> if c = CHR ''-'' then (True, cs) else if c = CHR ''+'' then (False, cs) else (False, s)
      | [] \<Rightarrow> (False, []))"

text \<open>\<open>stoi\<close> and \<open>stol\<close>: base 10, trailing characters ignored, \<open>w\<close> the width of the result.\<close>

definition parse_int :: "nat \<Rightarrow> string \<Rightarrow> int option" where
  "parse_int w s =
     (let (neg, t) = take_sign (dropWhile is_space s);
          ds = takeWhile is_digit t;
          v = (if neg then - int (digits_val ds) else int (digits_val ds))
      in if ds = [] then None
         else if - (2 ^ (w - 1)) \<le> v \<and> v < 2 ^ (w - 1) then Some v else None)"

definition stoi :: "string \<Rightarrow> int option" where
  "stoi s = parse_int 32 s"

definition stol :: "string \<Rightarrow> int option" where
  "stol s = parse_int 64 s"

section \<open>Parsing doubles\<close>

definition lower :: "char \<Rightarrow> char" where
  "lower c = (if 65 \<le> (of_char c :: nat) \<and> (of_char c :: nat) \<le> 90 then char_of ((of_char c :: nat) + 32) else c)"

definition has_prefix :: "string \<Rightarrow> string \<Rightarrow> bool" where
  "has_prefix p s \<longleftrightarrow> map lower (take (length p) s) = p"

definition hex_val :: "char \<Rightarrow> nat option" where
  "hex_val c =
     (let l = lower c
      in if is_digit c then Some (digit_val c)
         else if 97 \<le> (of_char l :: nat) \<and> (of_char l :: nat) \<le> 102 then Some (of_char l - 87) else None)"

definition dec_val :: "char \<Rightarrow> nat option" where
  "dec_val c = (if is_digit c then Some (digit_val c) else None)"

text \<open>An exponent suffix: its marker, an optional sign and at least one digit, else nothing.\<close>

definition take_exp :: "char \<Rightarrow> string \<Rightarrow> int" where
  "take_exp marker s =
     (case s of
        c # cs \<Rightarrow>
          (let (neg, t) = take_sign cs; ds = takeWhile is_digit t
           in if lower c = marker \<and> ds \<noteq> []
              then (if neg then - int (digits_val ds) else int (digits_val ds)) else 0)
      | [] \<Rightarrow> 0)"

text \<open>
  Mantissa and exponent of a number in base \<open>b\<close>: digits with at most one point among them, then
  an exponent of base \<open>eb\<close>.
\<close>

definition parse_number ::
  "nat \<Rightarrow> nat \<Rightarrow> (char \<Rightarrow> nat option) \<Rightarrow> char \<Rightarrow> string \<Rightarrow> rat option" where
  "parse_number b eb dv marker s =
     (let isd = (\<lambda>c. dv c \<noteq> None);
          val = foldl (\<lambda>n c. b * n + the (dv c)) 0;
          ip = takeWhile isd s; r1 = dropWhile isd s;
          (fp, r2) = (case r1 of
                        c # cs \<Rightarrow> if c = CHR ''.'' then (takeWhile isd cs, dropWhile isd cs) else ([], r1)
                      | [] \<Rightarrow> ([], []))
      in if ip @ fp = [] then None
         else Some (rat_of_nat (val (ip @ fp)) / rat_of_nat b ^ length fp
                    * rat_of_nat eb powi take_exp marker r2))"

definition range_checked :: "rat \<Rightarrow> double option" where
  "range_checked q =
     (case rnd q of
        Fin r \<Rightarrow> if \<bar>q\<bar> < 2 powi (- 1022) \<and> r \<noteq> q then None else Some (Fin r)
      | _ \<Rightarrow> None)"

definition stod :: "string \<Rightarrow> double option" where
  "stod s =
     (let (neg, t) = take_sign (dropWhile is_space s);
          signed = (\<lambda>x. if neg then - x else x)
      in if has_prefix ''inf'' t then Some (signed PInf)
         else if has_prefix ''nan'' t then Some NaN
         else map_option signed
           (case (if has_prefix ''0x'' t then parse_number 16 2 hex_val (CHR ''p'') (drop 2 t) else None) of
              Some q \<Rightarrow> range_checked q
            | None \<Rightarrow> (case parse_number 10 10 dec_val (CHR ''e'') t of
                         Some q \<Rightarrow> range_checked q | None \<Rightarrow> None)))"

text \<open>
  \<open>decimal_to_double\<close> of \<open>risk_manager.cpp\<close> and \<open>market_data_client.cpp\<close>: \<open>std::stod\<close>
  on the decimal's text, 0 when it throws.
\<close>

definition decimal_to_double :: "string \<Rightarrow> double" where
  "decimal_to_double v = (case stod v of Some x \<Rightarrow> x | None \<Rightarrow> Fin 0)"

section \<open>Searching\<close>

text \<open>\<open>find\<close> and \<open>rfind\<close> of a character, \<open>None\<close> for \<open>npos\<close>.\<close>

fun find_char :: "char \<Rightarrow> string \<Rightarrow> nat option" where
  "find_char c [] = None"
| "find_char c (d # ds) = (if d = c then Some 0 else map_option Suc (find_char c ds))"

definition rfind_char :: "char \<Rightarrow> string \<Rightarrow> nat option" where
  "rfind_char c s = map_option (\<lambda>i. length s - 1 - i) (find_char c (rev s))"

section \<open>Lemmas\<close>

lemma of_digit_char: "d < 10 \<Longrightarrow> (of_char (digit_char d) :: nat) = 48 + d"
  by (simp add: digit_char_def)

lemma is_digit_digit_char [simp]: "d < 10 \<Longrightarrow> is_digit (digit_char d)"
  by (simp add: is_digit_def of_digit_char)

lemma digit_val_digit_char [simp]: "d < 10 \<Longrightarrow> digit_val (digit_char d) = d"
  by (simp add: digit_val_def of_digit_char)

lemma digits_val_snoc: "digits_val (ds @ [c]) = 10 * digits_val ds + digit_val c"
  by (simp add: digits_val_def)

lemma nat_to_string_digits:
  "nat_to_string n \<noteq> [] \<and> list_all is_digit (nat_to_string n) \<and> digits_val (nat_to_string n) = n"
proof (induction n rule: nat_to_string.induct)
  case (1 n)
  show ?case
  proof (cases "n < 10")
    case True
    then show ?thesis by (subst (1 2 3) nat_to_string.simps) (simp add: digits_val_def)
  next
    case False
    with 1 show ?thesis
      by (subst (1 2 3) nat_to_string.simps) (simp add: digits_val_snoc)
  qed
qed

lemma digit_not_sign: "is_digit c \<Longrightarrow> c \<noteq> CHR ''-'' \<and> c \<noteq> CHR ''+'' \<and> \<not> is_space c \<and> c \<noteq> CHR ''.''"
  by (auto simp: is_digit_def is_space_def)

text \<open>Reading back what was printed, with anything but a digit behind it.\<close>

lemma parse_int_print:
  assumes "- (2 ^ (w - 1)) \<le> i" "i < 2 ^ (w - 1)" "rest = [] \<or> \<not> is_digit (hd rest)"
  shows "parse_int w (int_to_string i @ rest) = Some i"
proof -
  define s where "s = nat_to_string (nat \<bar>i\<bar>)"
  have s: "s \<noteq> []" "list_all is_digit s" "int (digits_val s) = \<bar>i\<bar>"
    using nat_to_string_digits[of "nat \<bar>i\<bar>"] by (simp_all add: s_def)
  have tw: "takeWhile is_digit (s @ rest) = s"
    using s(2) assms(3) by (cases rest) (auto simp: list_all_iff takeWhile_append)
  obtain c cs where c: "s = c # cs" using s(1) by (cases s) auto
  with s(2) have "is_digit c" by simp
  from digit_not_sign[OF this] have d: "take_sign (dropWhile is_space (s @ rest)) = (False, s @ rest)"
    by (simp add: c take_sign_def)
  have m: "take_sign (dropWhile is_space (CHR ''-'' # s @ rest)) = (True, s @ rest)"
    by (simp add: take_sign_def is_space_def)
  show ?thesis
  proof (cases "i < 0")
    case True
    then have "int_to_string i @ rest = CHR ''-'' # s @ rest" by (simp add: int_to_string_def s_def)
    then show ?thesis using True m tw s assms by (simp add: parse_int_def)
  next
    case False
    then have "int_to_string i @ rest = s @ rest" by (simp add: int_to_string_def s_def)
    then show ?thesis using False d tw s assms by (simp add: parse_int_def)
  qed
qed

lemma find_char_None_iff: "find_char c s = None \<longleftrightarrow> c \<notin> set s"
  by (induction s) auto

lemma find_char_append: "c \<notin> set a \<Longrightarrow> find_char c (a @ c # b) = Some (length a)"
  by (induction a) auto

lemma rfind_char_append: "c \<notin> set b \<Longrightarrow> rfind_char c (a @ c # b) = Some (length a)"
  using find_char_append[of c "rev b" "rev a"] by (simp add: rfind_char_def)

lemma rfind_char_None_iff: "rfind_char c s = None \<longleftrightarrow> c \<notin> set s"
  using find_char_None_iff[of c "rev s"] by (simp add: rfind_char_def)

text \<open>Reading a natural number as a double is exact up to \<open>2 ^ 53\<close>.\<close>

lemma dec_val_digits: "list_all is_digit s \<Longrightarrow> foldl (\<lambda>n c. 10 * n + the (dec_val c)) k s = foldl (\<lambda>n c. 10 * n + digit_val c) k s"
  by (induction s arbitrary: k) (auto simp: dec_val_def)

lemma lower_digit: "is_digit c \<Longrightarrow> lower c = c"
  by (simp add: is_digit_def lower_def)

lemma stod_digits:
  assumes "n \<le> 2 ^ 53"
  shows "stod (nat_to_string n) = Some (Fin (of_nat n))"
proof -
  define s where "s = nat_to_string n"
  have s: "s \<noteq> []" "list_all is_digit s" "digits_val s = n" using nat_to_string_digits[of n] by (simp_all add: s_def)
  obtain c cs where c: "s = c # cs" using s(1) by (cases s) auto
  have dc: "is_digit c" using s(2) c by simp
  have sign: "take_sign (dropWhile is_space s) = (False, s)"
    using digit_not_sign[OF dc] by (simp add: c take_sign_def)
  have pre: "\<not> has_prefix ''inf'' s" "\<not> has_prefix ''nan'' s"
    using dc by (auto simp: c has_prefix_def lower_digit is_digit_def)
  have hex: "\<not> has_prefix ''0x'' s"
    using s(2) by (cases cs) (auto simp: c has_prefix_def lower_digit is_digit_def)
  have isd: "takeWhile (\<lambda>c. dec_val c \<noteq> None) s = s" "dropWhile (\<lambda>c. dec_val c \<noteq> None) s = []"
    using s(2) by (auto simp: list_all_iff dec_val_def takeWhile_eq_all_conv)
  have num: "parse_number 10 10 dec_val (CHR ''e'') s = Some (of_nat n)"
    unfolding parse_number_def Let_def isd
    using s dec_val_digits[OF s(2), of 0] by (simp add: take_exp_def digits_val_def)
  have "rnd (of_nat n) = Fin (of_nat n)" using rnd_int[of "int n"] assms by simp
  then have "range_checked (of_nat n) = Some (Fin (of_nat n))" by (simp add: range_checked_def)
  then show ?thesis using sign pre hex num by (simp add: stod_def flip: s_def)
qed

lemma decimal_to_double_digits: "n \<le> 2 ^ 53 \<Longrightarrow> decimal_to_double (nat_to_string n) = Fin (of_nat n)"
  by (simp add: decimal_to_double_def stod_digits)

end
