(* ===== verification/Contract.thy ===== *)
theory Contract
  imports Cxx_Text
begin

text \<open>
  \<open>src/core/contract.hpp\<close>: the quarterly futures calendar. The \<open>std::chrono\<close> calendar the
  code uses (the proleptic Gregorian one, days counted from 1970-01-01) is written out as
  \<open>days_from_civil\<close> and \<open>civil_from_days\<close>, each the inverse of the other; on it stand
  \<open>third_friday\<close>, the quarter arithmetic, \<open>nearest_contract\<close> and \<open>expiry_day\<close>.

  The properties: \<open>third_friday\<close> is the third Friday; the chosen contract is the first
  quarterly contract that is not inside its rollover window; and the expiry day parsed back
  from the symbol is the one the symbol was built from.
\<close>

section \<open>The calendar\<close>

text \<open>Years of the computation start in March, so that a leap day is the last day of its year.\<close>

definition days_from_civil :: "int \<Rightarrow> int \<Rightarrow> int \<Rightarrow> int" where
  "days_from_civil y m d =
     (let y' = (if m \<le> 2 then y - 1 else y);
          era = y' div 400; yoe = y' mod 400;
          doy = (153 * (if m > 2 then m - 3 else m + 9) + 2) div 5 + d - 1
      in era * 146097 + (yoe * 365 + yoe div 4 - yoe div 100 + doy) - 719468)"

definition civil_from_days :: "int \<Rightarrow> int \<times> int \<times> int" where
  "civil_from_days z =
     (let z' = z + 719468;
          era = z' div 146097; doe = z' mod 146097;
          c = min (doe div 36524) 3; r1 = doe - c * 36524;
          q = r1 div 1461; r2 = r1 - q * 1461;
          a = min (r2 div 365) 3; doy = r2 - a * 365;
          mp = (5 * doy + 2) div 153;
          d = doy - (153 * mp + 2) div 5 + 1;
          m = (if mp < 10 then mp + 3 else mp - 9);
          y = 400 * era + 100 * c + 4 * q + a
      in (if m \<le> 2 then y + 1 else y, m, d))"

text \<open>\<open>weekday::c_encoding\<close>: 0 is Sunday; the epoch was a Thursday.\<close>

definition weekday :: "int \<Rightarrow> int" where
  "weekday days = (days + 4) mod 7"

section \<open>The quarterly calendar\<close>

definition third_friday :: "int \<Rightarrow> int \<Rightarrow> int" where
  "third_friday year month =
     (let wdi = weekday (days_from_civil year month 1);
          days_to_first_fri = (if wdi \<le> 5 then 5 - wdi else 12 - wdi)
      in 1 + days_to_first_fri + 14)"

definition is_quarterly :: "int \<Rightarrow> bool" where
  "is_quarterly month \<longleftrightarrow> month = 3 \<or> month = 6 \<or> month = 9 \<or> month = 12"

definition next_quarterly_month :: "int \<Rightarrow> int" where
  "next_quarterly_month month =
     (if month < 3 then 3 else if month < 6 then 6 else if month < 9 then 9
      else if month < 12 then 12 else 3)"

text \<open>\<open>next_quarterly(int& month, int& year)\<close> as a function on the pair.\<close>

definition next_quarterly :: "int \<times> int \<Rightarrow> int \<times> int" where
  "next_quarterly my =
     (let (month, year) = my; nxt = next_quarterly_month month
      in (nxt, if nxt \<le> month then year + 1 else year))"

definition quarter_letter :: "int \<Rightarrow> char" where
  "quarter_letter month =
     (if month = 3 then CHR ''H'' else if month = 6 then CHR ''M'' else if month = 9 then CHR ''U''
      else if month = 12 then CHR ''Z'' else CHR ''X'')"

text \<open>\<open>floor<days>(now)\<close> as a civil date.\<close>

definition civil_date :: "time_point \<Rightarrow> int \<times> int \<times> int" where
  "civil_date now = civil_from_days (now div (86400 * nanos_per_sec))"

text \<open>The (month, year) that \<open>nearest_contract\<close> settles on.\<close>

definition contract_month :: "int \<Rightarrow> time_point \<Rightarrow> int \<times> int" where
  "contract_month rollover_days now =
     (let (cur_year, cur_month, cur_day) = civil_date now;
          (exp_month, exp_year) =
            (if is_quarterly cur_month then (cur_month, cur_year)
             else next_quarterly (cur_month, cur_year));
          tf = third_friday exp_year exp_month
      in if cur_year = exp_year \<and> cur_month = exp_month \<and> tf - rollover_days \<le> cur_day
         then next_quarterly (exp_month, exp_year) else (exp_month, exp_year))"

definition nearest_contract :: "string \<Rightarrow> int \<Rightarrow> time_point \<Rightarrow> symbol" where
  "nearest_contract ticker rollover_days now =
     (let (exp_month, exp_year) = contract_month rollover_days now;
          y_digit = exp_year smod 10
      in \<lparr>security_code = ticker @ [quarter_letter exp_month] @ int_to_string y_digit,
          security_board = ''RTSX''\<rparr>)"

text \<open>\<open>code.back() - '0'\<close> is a difference of (signed) \<open>char\<close> values.\<close>

definition char_code :: "char \<Rightarrow> int" where
  "char_code c = signed_take_bit 7 (of_char c)"

definition expiry_day :: "symbol \<Rightarrow> int" where
  "expiry_day s =
     (let code = security_code s
      in if length code < 2 then 0
         else let letter = code ! (length code - 2);
                  year = 2020 + (char_code (last code) - char_code (CHR ''0''))
              in if letter = CHR ''H'' then third_friday year 3
                 else if letter = CHR ''M'' then third_friday year 6
                 else if letter = CHR ''U'' then third_friday year 9
                 else if letter = CHR ''Z'' then third_friday year 12
                 else 0)"

section \<open>The calendar is consistent\<close>

lemma civil_ranges:
  fixes doe :: int
  assumes "0 \<le> doe" "doe < 146097"
  defines "c \<equiv> min (doe div 36524) 3"
  defines "r1 \<equiv> doe - c * 36524"
  defines "q \<equiv> r1 div 1461"
  defines "r2 \<equiv> r1 - q * 1461"
  defines "a \<equiv> min (r2 div 365) 3"
  defines "doy \<equiv> r2 - a * 365"
  shows "0 \<le> c \<and> c \<le> 3 \<and> 0 \<le> q \<and> q \<le> 24 \<and> 0 \<le> a \<and> a \<le> 3 \<and> 0 \<le> doy \<and> doy \<le> 365"
proof -
  have c: "0 \<le> c" "c \<le> 3" "0 \<le> r1" "r1 \<le> 36524"
    using assms(1,2) unfolding c_def r1_def by auto
  have q: "0 \<le> q" "q \<le> 24" "0 \<le> r2" "r2 \<le> 1460"
    using c(3,4) unfolding q_def r2_def by auto
  have "0 \<le> a" "a \<le> 3" "0 \<le> doy" "doy \<le> 365"
    using q(3,4) unfolding a_def doy_def by auto
  with c q show ?thesis by simp
qed

lemma civil_month:
  assumes "0 \<le> (doy::int)" "doy \<le> 365"
  defines "mp \<equiv> (5 * doy + 2) div 153"
  shows "0 \<le> mp \<and> mp \<le> 11" and "1 \<le> doy - (153 * mp + 2) div 5 + 1" and "doy - (153 * mp + 2) div 5 + 1 \<le> 31"
proof -
  have a: "153 * mp \<le> 5 * doy + 2" "5 * doy + 2 < 153 * mp + 153" unfolding mp_def by auto
  have b: "5 * ((153 * mp + 2) div 5) \<le> 153 * mp + 2" "153 * mp + 2 < 5 * ((153 * mp + 2) div 5) + 5" by auto
  show "0 \<le> mp \<and> mp \<le> 11" using a assms(1,2) by linarith
  show "1 \<le> doy - (153 * mp + 2) div 5 + 1" and "doy - (153 * mp + 2) div 5 + 1 \<le> 31"
     using a b by linarith+
qed

text \<open>
  What the division steps of \<open>civil_from_days\<close> compute: era, century, four-year cycle, year,
  day of the year and month, each in its range.
\<close>

lemma civil_from_days_cases:
  assumes "civil_from_days z = (y, m, d)"
  obtains era c q a doy mp where
    "z + 719468 = 146097 * era + 36524 * c + 1461 * q + 365 * a + doy"
    "0 \<le> c" "c \<le> 3" "0 \<le> q" "q \<le> 24" "0 \<le> a" "a \<le> 3" "0 \<le> doy" "doy \<le> 365"
    "0 \<le> mp" "mp \<le> 11" "m = (if mp < 10 then mp + 3 else mp - 9)"
    "d = doy - (153 * mp + 2) div 5 + 1" "1 \<le> d" "d \<le> 31"
    "y = (if m \<le> 2 then 400 * era + 100 * c + 4 * q + a + 1 else 400 * era + 100 * c + 4 * q + a)"
proof -
  define era where "era = (z + 719468) div 146097"
  define doe where "doe = (z + 719468) mod 146097"
  have z: "z + 719468 = 146097 * era + doe" by (simp add: era_def doe_def)
  have b: "0 \<le> doe" "doe < 146097" by (auto simp: doe_def)
  define c where "c = min (doe div 36524) 3"
  define r1 where "r1 = doe - c * 36524"
  define q where "q = r1 div 1461"
  define r2 where "r2 = r1 - q * 1461"
  define a where "a = min (r2 div 365) 3"
  define doy where "doy = r2 - a * 365"
  define mp where "mp = (5 * doy + 2) div 153"
  have r: "0 \<le> c" "c \<le> 3" "0 \<le> q" "q \<le> 24" "0 \<le> a" "a \<le> 3" "0 \<le> doy" "doy \<le> 365"
    using civil_ranges[OF b, folded c_def r1_def, folded q_def, folded r2_def, folded a_def, folded doy_def]
    by simp_all
  note mp = civil_month[OF r(7,8), folded mp_def]
  have dec: "z + 719468 = 146097 * era + 36524 * c + 1461 * q + 365 * a + doy"
    by (simp add: z doy_def r2_def r1_def)
  define M where "M = (if mp < 10 then mp + 3 else mp - 9)"
  define Y where "Y = 400 * era + 100 * c + 4 * q + a"
  have "civil_from_days z = (if M \<le> 2 then Y + 1 else Y, M, doy - (153 * mp + 2) div 5 + 1)"
    unfolding civil_from_days_def M_def Y_def era_def doe_def c_def r1_def q_def r2_def a_def doy_def
      mp_def Let_def
    by (rule refl)
  with assms have ymd: "m = M" "d = doy - (153 * mp + 2) div 5 + 1" "y = (if m \<le> 2 then Y + 1 else Y)"
    by (auto split: if_splits)
  show ?thesis
    by (rule that[OF dec r _ _ _ ymd(2)]) (use mp ymd in \<open>simp_all add: M_def Y_def\<close>)
qed

lemma civil_from_days_ranges:
  assumes "civil_from_days z = (y, m, d)"
  shows "1 \<le> m \<and> m \<le> 12 \<and> 1 \<le> d \<and> d \<le> 31"
  using assms by (rule civil_from_days_cases) (auto split: if_splits)

text \<open>Printing a day number as a date and reading it back is the identity.\<close>

lemma days_from_civil_from_days:
  assumes "civil_from_days z = (y, m, d)"
  shows "days_from_civil y m d = z"
  using assms
proof (rule civil_from_days_cases)
  fix era c q a doy mp
  assume dec: "z + 719468 = 146097 * era + 36524 * c + 1461 * q + 365 * a + doy"
    and r: "0 \<le> c" "c \<le> 3" "0 \<le> q" "q \<le> 24" "0 \<le> a" "a \<le> 3" "0 \<le> mp" "mp \<le> 11"
    and m: "m = (if mp < 10 then mp + 3 else mp - 9)"
    and d: "d = doy - (153 * mp + 2) div 5 + 1"
    and y: "y = (if m \<le> 2 then 400 * era + 100 * c + 4 * q + a + 1 else 400 * era + 100 * c + 4 * q + a)"
  let ?w = "100 * c + 4 * q + a"
  have w: "0 \<le> ?w" "?w < 400" "?w div 4 = 25 * c + q" "?w div 100 = c" using r by auto
  have e: "(if m \<le> 2 then y - 1 else y) = ?w + era * 400" using y by simp
  have ymod: "(?w + era * 400) div 400 = era" "(?w + era * 400) mod 400 = ?w"
    using w by simp_all
  have mp: "(if m > 2 then m - 3 else m + 9) = mp" using m r(7,8) by auto
  show ?thesis unfolding days_from_civil_def Let_def e mp ymod w(3,4) d using dec by simp
qed

section \<open>Third Friday\<close>

lemma days_from_civil_day: "days_from_civil y m d = days_from_civil y m 1 + (d - 1)"
  by (simp add: days_from_civil_def Let_def)

lemma third_friday_range: "15 \<le> third_friday y m" "third_friday y m \<le> 21"
proof -
  have "0 \<le> weekday (days_from_civil y m 1)" "weekday (days_from_civil y m 1) < 7"
    by (simp_all add: weekday_def)
  then show "15 \<le> third_friday y m" "third_friday y m \<le> 21"
    by (auto simp: third_friday_def Let_def)
qed

text \<open>The Fridays of a month are the days that differ from the third one by whole weeks.\<close>

lemma friday_iff: "weekday (days_from_civil y m d) = 5 \<longleftrightarrow> (d - third_friday y m) mod 7 = 0"
proof -
  define w where "w = weekday (days_from_civil y m 1)"
  have w: "0 \<le> w" "w < 7" by (simp_all add: w_def weekday_def)
  have wd: "weekday (days_from_civil y m d) = (w + (d - 1)) mod 7"
    unfolding w_def weekday_def days_from_civil_day[of y m d] by presburger
  have tf: "third_friday y m = (if w \<le> 5 then 20 - w else 27 - w)"
    by (simp add: third_friday_def w_def)
  show ?thesis unfolding wd tf using w by (auto; presburger)
qed

section \<open>Quarters\<close>

lemma is_quarterly_next: "is_quarterly (fst (next_quarterly my))"
  by (auto simp: next_quarterly_def next_quarterly_month_def is_quarterly_def Let_def split: prod.split)

text \<open>Months on one axis.\<close>

definition month_index :: "int \<times> int \<Rightarrow> int" where
  "month_index my = 12 * snd my + fst my"

lemma next_quarterly_least:
  assumes "1 \<le> m" "m \<le> 12" "is_quarterly m'" "month_index (m, y) < month_index (m', y')"
  shows "month_index (next_quarterly (m, y)) \<le> month_index (m', y')"
proof -
  have "y \<le> y'" using assms by (auto simp: month_index_def is_quarterly_def)
  then consider "y' = y" | "y' = y + 1" | "y + 2 \<le> y'" by linarith
  then show ?thesis using assms
    by cases (auto simp: month_index_def is_quarterly_def next_quarterly_def next_quarterly_month_def)
qed

lemma next_quarterly_later:
  "1 \<le> m \<Longrightarrow> m \<le> 12 \<Longrightarrow> month_index (m, y) < month_index (next_quarterly (m, y))"
  by (auto simp: month_index_def next_quarterly_def next_quarterly_month_def Let_def)

lemma month_index_inj:
  assumes "1 \<le> m" "m \<le> 12" "1 \<le> m'" "m' \<le> 12" "month_index (m, y) = month_index (m', y')"
  shows "m = m' \<and> y = y'"
proof -
  have e: "12 * y + m = 12 * y' + m'" using assms(5) by (simp add: month_index_def)
  have "y = y'"
  proof (rule ccontr)
    assume "y \<noteq> y'"
    then consider "y + 1 \<le> y'" | "y' + 1 \<le> y" by linarith
    then show False using e assms(1-4) by cases linarith+
  qed
  with assms(5) show ?thesis by (simp add: month_index_def)
qed

lemma is_quarterly_range: "is_quarterly m \<Longrightarrow> 1 \<le> m \<and> m \<le> 12"
  by (auto simp: is_quarterly_def)

text \<open>No quarterly month lies strictly between a month and the quarterly month after it.\<close>

lemma before_next_quarterly:
  assumes "1 \<le> cm" "cm \<le> 12" "is_quarterly m'"
    and "month_index (cm, cy) \<le> month_index (m', y')"
    and "month_index (m', y') < month_index (next_quarterly (cm, cy))"
  shows "m' = cm \<and> y' = cy"
proof -
  have "\<not> month_index (cm, cy) < month_index (m', y')"
    using next_quarterly_least[OF assms(1-3)] assms(5) by fastforce
  then have "month_index (cm, cy) = month_index (m', y')" using assms(4) by simp
  then show ?thesis using month_index_inj[OF assms(1,2)] is_quarterly_range[OF assms(3)] by blast
qed

lemma civil_date_ranges:
  "civil_date now = (y, m, d) \<Longrightarrow> 1 \<le> m \<and> m \<le> 12 \<and> 1 \<le> d \<and> d \<le> 31"
  unfolding civil_date_def by (rule civil_from_days_ranges)

lemma contract_month_quarterly: "is_quarterly (fst (contract_month r now))"
proof -
  obtain cy cm cd where c: "civil_date now = (cy, cm, cd)" by (cases "civil_date now") auto
  let ?my = "if is_quarterly cm then (cm, cy) else next_quarterly (cm, cy)"
  have "contract_month r now = ?my \<or> contract_month r now = next_quarterly ?my"
    unfolding contract_month_def c by (cases ?my) (simp add: Let_def)
  then show ?thesis using is_quarterly_next by (metis fst_conv)
qed

section \<open>Symbols\<close>

lemma char_code_digit: "d < 10 \<Longrightarrow> char_code (digit_char d) = 48 + int d"
proof -
  assume d: "d < 10"
  have "(of_char (digit_char d) :: int) = int (of_char (digit_char d))" by (simp only: of_nat_of_char)
  also have "\<dots> = 48 + int d" using of_digit_char[OF d] by simp
  finally show ?thesis using d by (simp add: char_code_def signed_take_bit_int_eq_self)
qed

lemma last_digit_string: "0 \<le> y \<Longrightarrow> int_to_string (y smod 10) = [digit_char (nat (y mod 10))]"
proof -
  assume "0 \<le> y"
  moreover have "\<not> y mod 10 < 0" "nat (y mod 10) < 10" by auto
  ultimately show ?thesis
    by (simp add: smod_nonneg int_to_string_def nat_to_string.simps[of "nat (y mod 10)"])
qed

lemma expiry_day_code:
  assumes "is_quarterly m" "d < 10"
  shows "expiry_day \<lparr>security_code = t @ [quarter_letter m, digit_char d], security_board = b\<rparr>
       = third_friday (2020 + int d) m"
  using assms char_code_digit[of d]
  by (auto simp: expiry_day_def is_quarterly_def quarter_letter_def Let_def nth_append
      char_code_def[of "CHR ''0''"] signed_take_bit_int_eq_self)

text \<open>16 March 2026, four days before the expiry of the March contract.\<close>

lemma civil_date_example: "civil_date 1773619200000000000 = (2026, 3, 16)"
  by code_simp

lemma contract_month_example: "contract_month 5 1773619200000000000 = (6, 2026)"
proof -
  have "third_friday 2026 3 = 20" by (simp add: third_friday_def weekday_def days_from_civil_def)
  then show ?thesis
    by (simp add: contract_month_def civil_date_example is_quarterly_def next_quarterly_def
        next_quarterly_month_def)
qed

section \<open>Properties\<close>

text \<open>
  \<open>third_friday\<close> returns the third Friday of the month: that day is a Friday, it lies
  between the 15th and the 21st, and exactly three days of the month up to it are Fridays.
\<close>

lemma third_friday_is_third_friday:
  "weekday (days_from_civil y m (third_friday y m)) = 5
   \<and> 15 \<le> third_friday y m \<and> third_friday y m \<le> 21
   \<and> card {d. 1 \<le> d \<and> d \<le> third_friday y m \<and> weekday (days_from_civil y m d) = 5} = 3"
proof -
  let ?t = "third_friday y m"
  have "{d. 1 \<le> d \<and> d \<le> ?t \<and> weekday (days_from_civil y m d) = 5} = {?t - 14, ?t - 7, ?t}"
    unfolding friday_iff using third_friday_range[of y m] by (auto; presburger)
  moreover have "card {?t - 14, ?t - 7, ?t} = 3" by simp
  ultimately show ?thesis using third_friday_range[of y m] friday_iff[of y m ?t] by simp
qed



text \<open>
  The expiry day parsed back from a symbol is the expiry of the contract the symbol was
  built for, for every contract of the years 2020 to 2029 (a symbol carries the last digit of
  the year only).
\<close>

lemma expiry_day_of_nearest_contract:
  assumes "contract_month r now = (m, y)" and "2020 \<le> y" and "y \<le> 2029"
  shows "expiry_day (nearest_contract ticker r now) = third_friday y m"
proof -
  have q: "is_quarterly m" using contract_month_quarterly[of r now] assms(1) by simp
  let ?d = "nat (y mod 10)"
  have d: "?d < 10" by (simp add: nat_less_iff)
  have "int ?d = y mod 10" by simp
  moreover have "2020 + y mod 10 = y" using assms(2,3) by presburger
  ultimately have y: "2020 + int ?d = y" by simp
  have "nearest_contract ticker r now
      = \<lparr>security_code = ticker @ [quarter_letter m, digit_char ?d], security_board = ''RTSX''\<rparr>"
    using assms by (simp add: nearest_contract_def last_digit_string)
  then show ?thesis using expiry_day_code[OF q d] y by simp
qed

end
