(* ===== verification/Risk_Manager.thy ===== *)
theory Risk_Manager
  imports Contract
begin

text \<open>
  \<open>src/risk/risk_manager.hpp\<close> and \<open>risk_manager.cpp\<close>: the pre-trade checks, the profit
  accounting on fills, the account refresh and the circuit breaker. Every method takes the
  lock for all it reads or writes, so the model runs the methods one after another.

  Parameters: the answers of \<open>GetAccount\<close> and \<open>GetAssetParams\<close> (a status message or the
  response fields the code reads), the clock, and for \<open>on_fill\<close> the order in which
  \<open>std::unordered_map\<close> visits its keys.
\<close>

section \<open>State\<close>

record risk_config =
  per_trade_pct :: double
  max_daily_loss_pct :: double
  max_drawdown_pct :: double
  max_positions :: int
  require_stop_loss :: bool
  rollover_days :: int

definition default_risk_config :: risk_config where
  "default_risk_config = \<lparr>per_trade_pct = lit 2, max_daily_loss_pct = lit 5, max_drawdown_pct = lit 15,
                          max_positions = 3, require_stop_loss = True, rollover_days = 5\<rparr>"

record account_state =
  liquid_value :: double
  used_margin :: double
  free_margin :: double
  daily_pnl :: double
  open_positions :: double
  updated_at :: time_point

definition empty_account :: account_state where
  "empty_account = \<lparr>liquid_value = Fin 0, used_margin = Fin 0, free_margin = Fin 0, daily_pnl = Fin 0,
                    open_positions = Fin 0, updated_at = 0\<rparr>"

record open_position =
  pos_entry_price :: double
  pos_qty :: int

record risk_manager =
  risk_cfg :: risk_config
  account :: account_state
  peak_liquid :: double
  open_pos :: "int \<rightharpoonup> open_position"
  tripped :: bool
  trip_reason :: string

definition new_risk_manager :: "risk_config \<Rightarrow> risk_manager" where
  "new_risk_manager cfg =
     \<lparr>risk_cfg = cfg, account = empty_account, peak_liquid = Fin 0, open_pos = Map.empty,
      tripped = False, trip_reason = []\<rparr>"

text \<open>The fields of \<open>GetAccountResponse\<close> the code reads: decimals are texts.\<close>

record account_response =
  resp_equity :: string
  resp_money_reserved :: string
  resp_available_cash :: string
  resp_unrealized_profit :: string
  resp_positions_size :: int

record money =
  units :: int
  nanos :: int

record asset_params =
  long_initial_margin :: money
  short_initial_margin :: money

section \<open>Account refresh, fills, breaker\<close>

definition refresh_account ::
  "risk_manager \<Rightarrow> string + account_response \<Rightarrow> time_point \<Rightarrow> unit result \<times> risk_manager" where
  "refresh_account r rpc now =
     (case rpc of
        Inl msg \<Rightarrow> (Inl (mk_error RpcError msg), r)
      | Inr resp \<Rightarrow>
          (let s = \<lparr>liquid_value = decimal_to_double (resp_equity resp),
                    used_margin = decimal_to_double (resp_money_reserved resp),
                    free_margin = decimal_to_double (resp_available_cash resp),
                    daily_pnl = decimal_to_double (resp_unrealized_profit resp),
                    open_positions = double_of_int (resp_positions_size resp),
                    updated_at = now\<rparr>
           in (Inr (), r\<lparr>account := s,
                         peak_liquid := if peak_liquid r < liquid_value s then liquid_value s else peak_liquid r\<rparr>)))"

text \<open>
  \<open>start\<close>: the first refresh, whose failure is only logged. \<open>poll_loop\<close>: whether the thread has
  ended, and the manager; \<open>stops i\<close> is what load number \<open>i\<close> of the stop flag sees, and every
  pass meets an answer of the broker and the time.
\<close>

definition start_risk :: "risk_manager \<Rightarrow> string + account_response \<Rightarrow> time_point \<Rightarrow> risk_manager" where
  "start_risk r rpc now = snd (refresh_account r rpc now)"

fun poll_loop ::
  "(nat \<Rightarrow> bool) \<Rightarrow> nat \<Rightarrow> risk_manager \<Rightarrow> ((string + account_response) \<times> time_point) list \<Rightarrow> bool \<times> risk_manager" where
  "poll_loop stops i r [] = (False, r)"
| "poll_loop stops i r ((rpc, now) # as) =
     (if stops i then (True, r)
      else if stops (Suc i) then (True, r)
      else poll_loop stops (Suc (Suc i)) (snd (refresh_account r rpc now)) as)"

text \<open>The position \<open>find_if\<close> stops at, when the map is visited in \<open>order\<close>.\<close>

definition opposite :: "bool \<Rightarrow> open_position \<Rightarrow> bool" where
  "opposite is_buy p \<longleftrightarrow> is_buy \<and> pos_qty p < 0 \<or> \<not> is_buy \<and> 0 < pos_qty p"

definition find_opposite :: "(int \<rightharpoonup> open_position) \<Rightarrow> int list \<Rightarrow> bool \<Rightarrow> int option" where
  "find_opposite m order is_buy =
     List.find (\<lambda>k. case m k of None \<Rightarrow> False | Some p \<Rightarrow> opposite is_buy p) order"

definition on_fill :: "int list \<Rightarrow> risk_manager \<Rightarrow> order_update \<Rightarrow> risk_manager" where
  "on_fill order r u =
     (if upd_qty_filled u \<le> 0 then r
      else let is_buy = (upd_side u = Buy)
           in case find_opposite (open_pos r) order is_buy of
                Some k \<Rightarrow>
                  (let p = the (open_pos r k);
                       pnl = (upd_price u - pos_entry_price p) * double_of_int (upd_qty_filled u)
                             * (if 0 < pos_qty p then lit 1 else lit (- 1));
                       a = (account r)\<lparr>daily_pnl := daily_pnl (account r) + pnl,
                                      liquid_value := liquid_value (account r) + pnl\<rparr>
                   in r\<lparr>account := a,
                        peak_liquid := if peak_liquid r < liquid_value a then liquid_value a else peak_liquid r,
                        open_pos := (open_pos r)(k := None)\<rparr>)
              | None \<Rightarrow>
                  r\<lparr>open_pos := (open_pos r)(transaction_id u \<mapsto>
                       \<lparr>pos_entry_price = upd_price u,
                        pos_qty = if is_buy then upd_qty_filled u else - upd_qty_filled u\<rparr>)\<rparr>)"

definition trip_circuit_breaker :: "risk_manager \<Rightarrow> string \<Rightarrow> risk_manager" where
  "trip_circuit_breaker r reason =
     (if tripped r then r else r\<lparr>tripped := True, trip_reason := reason\<rparr>)"

section \<open>The checks\<close>

definition fetch_initial_margin :: "string + asset_params \<Rightarrow> bool \<Rightarrow> double result" where
  "fetch_initial_margin rpc is_long =
     (case rpc of
        Inl msg \<Rightarrow> Inl (mk_error RpcError msg)
      | Inr resp \<Rightarrow>
          (let margin = (if is_long then long_initial_margin resp else short_initial_margin resp)
           in Inr (double_of_int (units margin) + double_of_int (nanos margin) / lit (10^9))))"

definition check_circuit_breaker :: "risk_manager \<Rightarrow> unit result" where
  "check_circuit_breaker r =
     (if \<not> tripped r then Inr ()
      else Inl (mk_error RiskLimitExceeded (''circuit breaker tripped: '' @ trip_reason r)))"

definition check_daily_loss :: "risk_manager \<Rightarrow> unit result" where
  "check_daily_loss r =
     (if liquid_value (account r) < lit 1 then Inr ()
      else let loss_pct = - daily_pnl (account r) / liquid_value (account r) * lit 100
           in if max_daily_loss_pct (risk_cfg r) \<le> loss_pct
              then Inl (mk_error DailyLossLimitHit ''daily loss limit hit'') else Inr ())"

definition check_drawdown :: "risk_manager \<Rightarrow> unit result" where
  "check_drawdown r =
     (if peak_liquid r < lit 1 then Inr ()
      else let dd_pct = (peak_liquid r - liquid_value (account r)) / peak_liquid r * lit 100
           in if max_drawdown_pct (risk_cfg r) \<le> dd_pct
              then Inl (mk_error RiskLimitExceeded ''max drawdown exceeded'') else Inr ())"

definition check_position_count :: "risk_manager \<Rightarrow> unit result" where
  "check_position_count r =
     (if double_of_int (max_positions (risk_cfg r)) \<le> open_positions (account r)
      then Inl (mk_error RiskLimitExceeded ''max positions reached'') else Inr ())"

definition check_margin ::
  "risk_manager \<Rightarrow> (symbol \<Rightarrow> string + asset_params) \<Rightarrow> order_request \<Rightarrow> unit result" where
  "check_margin r rpc req =
     (case fetch_initial_margin (rpc (req_symbol req)) (req_side req = Buy) of
        Inl _ \<Rightarrow> Inr ()
      | Inr margin \<Rightarrow>
          (let required = margin * double_of_int (req_quantity req)
           in if free_margin (account r) < required
              then Inl (mk_error InsufficientMargin ''insufficient margin'')
              else if lit 1 < liquid_value (account r)
                      \<and> liquid_value (account r) * per_trade_pct (risk_cfg r) / lit 100 < required
              then Inl (mk_error RiskLimitExceeded ''per-trade margin limit exceeded'')
              else Inr ()))"

text \<open>\<open>substr(dash + 1, dot - dash - 1)\<close>: the count wraps to a huge one when the dot comes first.\<close>

definition month_text :: "string \<Rightarrow> nat \<Rightarrow> nat \<Rightarrow> string" where
  "month_text code dash dot =
     (if dash < dot then take (dot - dash - 1) (drop (dash + 1) code) else drop (dash + 1) code)"

definition check_expiry :: "risk_manager \<Rightarrow> symbol \<Rightarrow> time_point \<Rightarrow> unit result" where
  "check_expiry r sy now =
     (let ed = expiry_day sy; code = security_code sy
      in if ed = 0 then Inr ()
         else case (find_char (CHR ''-'') code, find_char (CHR ''.'') code) of
           (Some dash, Some dot) \<Rightarrow>
             (case (stoi (month_text code dash dot), stoi (drop (dot + 1) code)) of
                (Some exp_month, Some y) \<Rightarrow>
                  (let exp_year = wrap32 (2000 + y);
                       (cur_year, cur_month, cur_day) = civil_from_days (to_time_t now div 86400)
                   in if exp_year < cur_year \<or> cur_year = exp_year \<and> exp_month < cur_month
                      then Inl (mk_error RiskLimitExceeded (''contract expired: '' @ symbol_to_string sy))
                      else if cur_year = exp_year \<and> cur_month = exp_month
                              \<and> ed - rollover_days (risk_cfg r) \<le> cur_day
                      then Inl (mk_error RiskLimitExceeded ''rollover window: switch to next contract'')
                      else Inr ())
              | _ \<Rightarrow> Inr ())
         | _ \<Rightarrow> Inr ())"

text \<open>\<open>if (auto r = f(); !r) return r;\<close>\<close>

definition and_then :: "unit result \<Rightarrow> unit result \<Rightarrow> unit result" where
  "and_then a b = (case a of Inl e \<Rightarrow> Inl e | Inr _ \<Rightarrow> b)"

definition check ::
  "(symbol \<Rightarrow> string + asset_params) \<Rightarrow> time_point \<Rightarrow> risk_manager \<Rightarrow> order_request \<Rightarrow> unit result" where
  "check rpc now r req =
     and_then (check_circuit_breaker r)
    (and_then (check_daily_loss r)
    (and_then (check_drawdown r)
    (and_then (check_position_count r)
    (and_then (check_expiry r (req_symbol req) now)
              (check_margin r rpc req)))))"

datatype risk_op = Refresh "string + account_response" time_point
  | Fill "int list" order_update | Trip string

fun risk_step :: "risk_manager \<Rightarrow> risk_op \<Rightarrow> risk_manager" where
  "risk_step r (Refresh rpc now) = snd (refresh_account r rpc now)"
| "risk_step r (Fill order u) = on_fill order r u"
| "risk_step r (Trip reason) = trip_circuit_breaker r reason"

section \<open>The breaker is a latch\<close>

lemma tripped_frame [simp]:
  "tripped (snd (refresh_account r rpc now)) = tripped r"
  "trip_reason (snd (refresh_account r rpc now)) = trip_reason r"
  "tripped (on_fill order r u) = tripped r"
  "trip_reason (on_fill order r u) = trip_reason r"
  by (simp_all add: refresh_account_def on_fill_def Let_def split: sum.split option.split)

text \<open>The poll thread is a run of refreshes, and ends when it sees the flag.\<close>

lemma poll_loop_run:
  "\<exists>n \<le> length as. snd (poll_loop stops i r as) = foldl risk_step r (map (\<lambda>(rpc, now). Refresh rpc now) (take n as))"
proof (induction as arbitrary: i r)
  case (Cons a as)
  obtain rpc now where a: "a = (rpc, now)" by fastforce
  show ?case
  proof (cases "stops i \<or> stops (Suc i)")
    case True
    then show ?thesis by (intro exI[of _ 0]) (auto simp: a)
  next
    case False
    from Cons.IH[of "Suc (Suc i)" "snd (refresh_account r rpc now)"] obtain n where
      "n \<le> length as" "snd (poll_loop stops (Suc (Suc i)) (snd (refresh_account r rpc now)) as)
         = foldl risk_step (snd (refresh_account r rpc now)) (map (\<lambda>(rpc, now). Refresh rpc now) (take n as))" by blast
    then show ?thesis using False by (intro exI[of _ "Suc n"]) (simp add: a)
  qed
qed simp

lemma poll_loop_stops: "stops n \<Longrightarrow> i \<le> n \<Longrightarrow> n < i + 2 * length as \<Longrightarrow> fst (poll_loop stops i r as)"
proof (induction as arbitrary: i r)
  case (Cons a as)
  then show ?case
    by (cases a; cases "n = i \<or> n = Suc i") (auto intro: Cons.IH)
qed simp

interpretation breaker: latch_machine risk_step tripped trip_reason
  by unfold_locales (rename_tac r e, case_tac e; simp add: trip_circuit_breaker_def)+

lemma and_then_ok [simp]: "and_then a b = Inr () \<longleftrightarrow> a = Inr () \<and> b = Inr ()"
  by (auto simp: and_then_def split: sum.split)

lemma and_then_simps [simp]: "and_then (Inl e) b = Inl e" "and_then (Inr u) b = b"
  by (simp_all add: and_then_def)

lemma tripped_check:
  "tripped r \<Longrightarrow> check rpc now r req = Inl (mk_error RiskLimitExceeded (''circuit breaker tripped: '' @ trip_reason r))"
  by (simp add: check_def check_circuit_breaker_def)

section \<open>The gate interface\<close>

text \<open>
  \<open>IRiskManager\<close> with the breaker, as the runner uses it: a tripped gate lets nothing pass
  and says so with a code that makes the runner trip it again.
\<close>

locale risk_gate =
  fixes chk :: "'r \<Rightarrow> order_request \<Rightarrow> unit result"
    and trip :: "'r \<Rightarrow> string \<Rightarrow> 'r"
    and is_tripped :: "'r \<Rightarrow> bool"
  assumes trip_trips: "is_tripped (trip r m)"
    and tripped_rejects: "is_tripped r \<Longrightarrow> \<exists>e. chk r req = Inl e \<and> err_code e = RiskLimitExceeded"
    and trip_idle: "is_tripped r \<Longrightarrow> trip r m = r"
begin

lemma tripped_blocks: "is_tripped r \<Longrightarrow> chk r req \<noteq> Inr ()"
  using tripped_rejects[of r req] by auto

lemma trip_blocks: "chk (trip r m) req \<noteq> Inr ()"
  by (rule tripped_blocks[OF trip_trips])

lemma pass_means_closed: "chk r req = Inr () \<Longrightarrow> \<not> is_tripped r"
  using tripped_blocks by blast

end

interpretation gate: risk_gate "check rpc now" trip_circuit_breaker tripped
  by unfold_locales (auto simp: trip_circuit_breaker_def tripped_check)

text \<open>With the positions at their limit every check fails with a code that trips the breaker.\<close>

lemma position_limit_rejects:
  assumes "double_of_int (max_positions (risk_cfg r)) \<le> open_positions (account r)"
  shows "\<exists>e. check rpc now r req = Inl e
    \<and> (err_code e = RiskLimitExceeded \<or> err_code e = DailyLossLimitHit)"
proof -
  have "check_position_count r = Inl (mk_error RiskLimitExceeded ''max positions reached'')"
    using assms by (simp add: check_position_count_def)
  then show ?thesis
    by (auto simp: check_def check_circuit_breaker_def check_daily_loss_def check_drawdown_def Let_def)
qed

section \<open>The peak\<close>

definition peak_inv :: "risk_manager \<Rightarrow> bool" where
  "peak_inv r \<longleftrightarrow> \<not> peak_liquid r < liquid_value (account r) \<and> Fin 0 \<le> peak_liquid r"

lemma peak_inv_new: "peak_inv (new_risk_manager cfg)"
  by (simp add: peak_inv_def new_risk_manager_def empty_account_def)

lemma peak_update: "Fin 0 \<le> p \<Longrightarrow> p < v \<Longrightarrow> Fin 0 \<le> (v::double)"
  using double_le_trans double_less_imp_le by blast

lemma peak_inv_step: "peak_inv r \<Longrightarrow> peak_inv (risk_step r op)"
proof (cases op)
  case (Refresh rpc now)
  assume "peak_inv r"
  then show ?thesis using Refresh peak_update
    by (auto simp: peak_inv_def refresh_account_def Let_def split: sum.split)
next
  case (Fill order u)
  assume "peak_inv r"
  then show ?thesis using Fill peak_update
    by (auto simp: peak_inv_def on_fill_def Let_def split: option.split)
next
  case (Trip reason)
  assume "peak_inv r"
  then show ?thesis using Trip by (simp add: peak_inv_def trip_circuit_breaker_def)
qed

interpretation peak: inv_machine risk_step peak_inv
  by unfold_locales (rule peak_inv_step)

section \<open>Lemmas on the checks\<close>

lemma decimal_nan: "decimal_to_double ''nan'' = NaN"
proof -
  have "take_sign (dropWhile is_space ''nan'') = (False, ''nan'')" by (simp add: is_space_def take_sign_def)
  moreover have "\<not> has_prefix ''inf'' ''nan''" "has_prefix ''nan'' ''nan''"
    by (simp_all add: has_prefix_def lower_def)
  ultimately show ?thesis by (simp add: decimal_to_double_def stod_def)
qed

lemma check_daily_loss_ok:
  "check_daily_loss r = Inr () \<longleftrightarrow>
     liquid_value (account r) < Fin 1
     \<or> \<not> max_daily_loss_pct (risk_cfg r) \<le> - daily_pnl (account r) / liquid_value (account r) * Fin 100"
  by (simp add: check_daily_loss_def Let_def)

lemma check_drawdown_ok:
  "check_drawdown r = Inr () \<longleftrightarrow>
     peak_liquid r < Fin 1
     \<or> \<not> max_drawdown_pct (risk_cfg r) \<le> (peak_liquid r - liquid_value (account r)) / peak_liquid r * Fin 100"
  by (simp add: check_drawdown_def Let_def)

text \<open>The code a quarterly contract gets from \<open>nearest_contract\<close> has neither dash nor dot.\<close>

lemma nearest_contract_chars:
  assumes "c \<notin> set ticker" "c = CHR ''-'' \<or> c = CHR ''.''" "0 \<le> snd (contract_month rd now)"
  shows "c \<notin> set (security_code (nearest_contract ticker rd now))"
proof -
  obtain m y where my: "contract_month rd now = (m, y)" by fastforce
  have "c \<noteq> quarter_letter m" using assms(2) by (auto simp: quarter_letter_def)
  moreover have "is_digit (digit_char (nat (y mod 10)))" by simp
  then have "c \<noteq> digit_char (nat (y mod 10))" using assms(2) digit_not_sign by blast
  ultimately show ?thesis
    using assms(1,3) my by (simp add: nearest_contract_def last_digit_string)
qed

lemma check_expiry_without_dash:
  "CHR ''-'' \<notin> set (security_code sy) \<or> CHR ''.'' \<notin> set (security_code sy) \<Longrightarrow> check_expiry r sy now = Inr ()"
  using find_char_None_iff[of "CHR ''-''" "security_code sy"] find_char_None_iff[of "CHR ''.''" "security_code sy"]
  by (auto simp: check_expiry_def Let_def split: option.split)

lemma find_opposite_empty [simp]: "find_opposite Map.empty order b = None"
  by (simp add: find_opposite_def find_None_iff)

lemma find_opposite_single:
  "set order = {k} \<Longrightarrow> opposite b p \<Longrightarrow> find_opposite [k \<mapsto> p] order b = Some k"
  by (cases order) (auto simp: find_opposite_def)

section \<open>Properties\<close>

text \<open>
  The circuit breaker is a latch. Once it is tripped, no sequence of account refreshes,
  fills and further trips lets an order pass: every \<open>check\<close> fails with
  \<open>RiskLimitExceeded\<close> and the reason of the first trip.
\<close>

lemma breaker_rejects_forever:
  assumes "tripped r"
  shows "check rpc now (foldl risk_step r ops) req =
    Inl (mk_error RiskLimitExceeded (''circuit breaker tripped: '' @ trip_reason r))"
  using breaker.latch_run[OF assms, of ops] tripped_check by simp

text \<open>
  The peak bounds the account. Whatever refreshes and fills the manager has seen, the
  liquid value is not above the recorded peak (it is below, equal, or NaN), and the peak is
  not negative.
\<close>

lemma peak_bounds_liquid:
  "let r = foldl risk_step (new_risk_manager cfg) ops
   in \<not> peak_liquid r < liquid_value (account r) \<and> Fin 0 \<le> peak_liquid r"
  using peak.run_inv[OF peak_inv_new, of cfg ops] by (simp add: peak_inv_def Let_def)


text \<open>
  A NaN equity switches the loss limits off. If the broker reports an equity that
  \<open>std::stod\<close> reads as NaN, then after that refresh the daily loss and the drawdown checks pass
  whatever the reported loss, and the position size is not limited by the account.
\<close>

lemma nan_equity_disables_limits:
  assumes "decimal_to_double (resp_equity resp) = NaN"
    and "r' = snd (refresh_account r (Inr resp) now)"
  shows "check_daily_loss r' = Inr () \<and> check_drawdown r' = Inr ()
    \<and> (check_margin r' rpc req = Inr ()
       \<or> check_margin r' rpc req = Inl (mk_error InsufficientMargin ''insufficient margin''))"
proof -
  have "liquid_value (account r') = NaN" using assms by (simp add: refresh_account_def Let_def)
  then show ?thesis
    by (auto simp: check_daily_loss_def check_drawdown_def check_margin_def Let_def split: sum.split)
qed

text \<open>
  C20: the expiry check never fires for the contracts the program trades. For every ticker
  without a dash, at every time, the symbol \<open>nearest_contract\<close> builds passes
  \<open>check_expiry\<close>, also inside the rollover window and after expiry: the check looks for the
  dash and the dot of a symbol format that is no longer used.
\<close>

theorem expiry_check_is_dead:
  assumes "CHR ''-'' \<notin> set ticker" and "0 \<le> snd (contract_month rd now)"
  shows "check_expiry r (nearest_contract ticker rd now) later = Inr ()"
  by (rule check_expiry_without_dash) (use nearest_contract_chars[OF assms(1) _ assms(2)] in blast)

theorem expiry_check_is_dead_witness:
  "check_expiry (new_risk_manager default_risk_config) (nearest_contract ''Si'' 5 1773619200000000000)
     9999999999000000000 = Inr ()"
  by (rule expiry_check_is_dead) (simp_all add: contract_month_example)

text \<open>
  C21: profit accounting on fills. From a flat book, a fill that opens a position and a fill of
  the other side add (subtract, for a short) the price difference times the \<^emph>\<open>closing\<close> quantity
  to the daily profit, and the position is gone, whatever the two quantities are: a partial
  close forgets the remainder.
\<close>

theorem fill_round_trip:
  assumes "open_pos r = Map.empty" and "0 < upd_qty_filled u" and "0 < upd_qty_filled v"
    and "upd_side u \<noteq> upd_side v" and "set order2 = {transaction_id u}"
    and "r' = on_fill order2 (on_fill order1 r u) v"
  shows "open_pos r' = Map.empty
    \<and> daily_pnl (account r') = daily_pnl (account r)
        + (upd_price v - upd_price u) * double_of_int (upd_qty_filled v)
          * (if upd_side u = Buy then Fin 1 else Fin (- 1))"
proof -
  let ?p = "\<lparr>pos_entry_price = upd_price u,
            pos_qty = if upd_side u = Buy then upd_qty_filled u else - upd_qty_filled u\<rparr>"
  have 1: "on_fill order1 r u = r\<lparr>open_pos := [transaction_id u \<mapsto> ?p]\<rparr>"
    using assms(1,2) by (simp add: on_fill_def)
  have "opposite (upd_side v = Buy) ?p"
    using assms(2,4) by (cases "upd_side u"; cases "upd_side v") (auto simp: opposite_def)
  then have "find_opposite [transaction_id u \<mapsto> ?p] order2 (upd_side v = Buy) = Some (transaction_id u)"
    by (rule find_opposite_single[OF assms(5)])
  then show ?thesis
    unfolding assms(6) 1 using assms(2,3) by (auto simp: on_fill_def Let_def)
qed

definition fill_of :: "order_side \<Rightarrow> int \<Rightarrow> int \<Rightarrow> int \<Rightarrow> order_update" where
  "fill_of side tid qty price = \<lparr>order_no = tid, transaction_id = tid, upd_symbol = empty_symbol,
     upd_client_id = [], upd_side = side, upd_status = Filled, upd_type = Market,
     upd_price = Fin (of_int price), upd_qty_total = qty, upd_qty_filled = qty, upd_message = [], upd_ts = 0\<rparr>"

theorem fill_round_trip_witness:
  "open_pos (on_fill [1] (on_fill [] (new_risk_manager default_risk_config) (fill_of Buy 1 5 100))
     (fill_of Sell 2 1 110)) = Map.empty"
  using fill_round_trip[OF _ _ _ _ _ refl, of "new_risk_manager default_risk_config"
      "fill_of Buy 1 5 100" "fill_of Sell 2 1 110" "[1]" "[]"]
  by (simp add: new_risk_manager_def fill_of_def)

end
