(* ===== verification/Order_Client.thy ===== *)
theory Order_Client
  imports Cxx_Text
begin

text \<open>
  \<open>src/order/order_client.hpp\<close> and \<open>order_client.cpp\<close>: placing and cancelling orders, the
  table of orders by local id, and the stream of order states. What the broker answers is a
  parameter; every operation returns the \<open>OrderUpdate\<close>s it hands to the callback.

  \<open>submit\<close> is split where the code waits for the broker, into \<open>submit_request\<close> and
  \<open>submit_response\<close>: the stream thread runs in between.
\<close>

section \<open>Formatting with \<open>%.10g\<close>\<close>

text \<open>The decimal exponent of a positive number.\<close>

definition log10_floor :: "rat \<Rightarrow> int" where
  "log10_floor q =
     (if 1 \<le> q then int (length (nat_to_string (nat \<lfloor>q\<rfloor>))) - 1
      else - int (length (nat_to_string (nat (\<lceil>1 / q\<rceil> - 1)))))"

text \<open>Ten significant digits, rounded to nearest even, and the exponent of the first one.\<close>

definition ten_digits :: "rat \<Rightarrow> int \<times> int" where
  "ten_digits q =
     (let x = log10_floor q; m = round_even (q * 10 powi (9 - x))
      in if m = 10 ^ 10 then (10 ^ 9, x + 1) else (m, x))"

definition strip_zeros :: "string \<Rightarrow> string" where
  "strip_zeros s = rev (dropWhile (\<lambda>c. c = CHR ''0'') (rev s))"

definition with_fraction :: "string \<Rightarrow> string \<Rightarrow> string" where
  "with_fraction ip fp = (if strip_zeros fp = [] then ip else ip @ ''.'' @ strip_zeros fp)"

definition exponent_text :: "int \<Rightarrow> string" where
  "exponent_text x =
     (let ds = nat_to_string (nat \<bar>x\<bar>)
      in (if x < 0 then ''e-'' else ''e+'') @ (if length ds < 2 then ''0'' @ ds else ds))"

definition format_pos :: "rat \<Rightarrow> string" where
  "format_pos q =
     (let (m, x) = ten_digits q; ds = nat_to_string (nat m)
      in if - 4 \<le> x \<and> x < 10
         then if 0 \<le> x then with_fraction (take (nat x + 1) ds) (drop (nat x + 1) ds)
              else with_fraction ''0'' (replicate (nat (- x - 1)) (CHR ''0'') @ ds)
         else with_fraction (take 1 ds) (drop 1 ds) @ exponent_text x)"

definition format_g10 :: "double \<Rightarrow> string" where
  "format_g10 v =
     (case v of
        NaN \<Rightarrow> ''nan'' | PInf \<Rightarrow> ''inf'' | NInf \<Rightarrow> ''-inf''
      | Fin q \<Rightarrow> if q = 0 then ''0'' else if q < 0 then CHR ''-'' # format_pos (- q) else format_pos q)"

section \<open>Messages\<close>

datatype proto_status =
    PS_NEW | PS_PENDING_NEW | PS_PENDING_CANCEL | PS_SUSPENDED | PS_WATCHING | PS_WAIT | PS_LINK_WAIT
  | PS_FORWARDING | PS_SL_FORWARDING | PS_TP_FORWARDING | PS_SL_GUARD_TIME | PS_TP_GUARD_TIME
  | PS_TP_CORRECTION | PS_TP_CORR_GUARD_TIME | PS_PARTIALLY_FILLED | PS_FILLED | PS_EXECUTED
  | PS_SL_EXECUTED | PS_TP_EXECUTED | PS_CANCELED | PS_REPLACED | PS_DONE_FOR_DAY | PS_EXPIRED
  | PS_DISABLED | PS_REJECTED | PS_REJECTED_BY_EXCHANGE | PS_DENIED_BY_BROKER | PS_FAILED
  | PS_OTHER int

definition map_status :: "proto_status \<Rightarrow> order_status" where
  "map_status s =
     (case s of
        PS_PARTIALLY_FILLED \<Rightarrow> PartialFill
      | PS_FILLED \<Rightarrow> Filled | PS_EXECUTED \<Rightarrow> Filled | PS_SL_EXECUTED \<Rightarrow> Filled | PS_TP_EXECUTED \<Rightarrow> Filled
      | PS_CANCELED \<Rightarrow> Cancelled | PS_REPLACED \<Rightarrow> Cancelled | PS_DONE_FOR_DAY \<Rightarrow> Cancelled
      | PS_EXPIRED \<Rightarrow> Cancelled | PS_DISABLED \<Rightarrow> Cancelled
      | PS_REJECTED \<Rightarrow> Rejected | PS_REJECTED_BY_EXCHANGE \<Rightarrow> Rejected
      | PS_DENIED_BY_BROKER \<Rightarrow> Rejected | PS_FAILED \<Rightarrow> Rejected
      | _ \<Rightarrow> Pending)"

datatype time_in_force = IOC | DAY

text \<open>The \<open>PlaceOrder\<close> request, and what the code reads of an order in the stream.\<close>

record place_order =
  po_account_id :: string
  po_symbol :: string
  po_quantity :: string
  po_side :: order_side
  po_client_order_id :: string
  po_type :: order_type
  po_time_in_force :: time_in_force
  po_limit_price :: "string option"

record place_response =
  pr_order_id :: string
  pr_status :: proto_status

record stream_order =
  so_order_id :: string
  so_client_order_id :: string
  so_side_is_buy :: bool
  so_type_is_market :: bool
  so_status :: proto_status
  so_initial_quantity :: string
  so_executed_quantity :: string

section \<open>State and operations\<close>

record order_state =
  os_order_id :: string
  os_local_id :: int
  os_symbol :: symbol
  os_side :: order_side
  os_status :: order_status
  os_type :: order_type
  os_price :: double
  os_qty_total :: int
  os_qty_filled :: int
  os_reject_reason :: string
  os_ts :: time_point

record order_client =
  account_id :: string
  id_counter :: int
  orders :: "int \<rightharpoonup> order_state"

definition new_order_client :: "string \<Rightarrow> order_client" where
  "new_order_client acc = \<lparr>account_id = acc, id_counter = 1, orders = Map.empty\<rparr>"

definition validate :: "order_request \<Rightarrow> error option" where
  "validate req =
     (if req_client_id req = [] then Some (mk_error InvalidArgument ''client_id is empty'')
      else if req_quantity req \<le> 0
      then Some (mk_error InvalidQuantity (''quantity must be > 0, got '' @ int_to_string (req_quantity req)))
      else if req_type req = Limit \<and> req_price req \<le> Fin 0
      then Some (mk_error InvalidPrice ''limit order requires price > 0'')
      else None)"

definition next_id :: "order_client \<Rightarrow> int \<times> order_client" where
  "next_id c = (id_counter c, c\<lparr>id_counter := wrap64 (id_counter c + 1)\<rparr>)"

definition place_order_of :: "order_client \<Rightarrow> order_request \<Rightarrow> int \<Rightarrow> place_order" where
  "place_order_of c req local_id =
     \<lparr>po_account_id = account_id c, po_symbol = symbol_to_string (req_symbol req),
      po_quantity = format_g10 (double_of_int (req_quantity req)),
      po_side = req_side req, po_client_order_id = int_to_string local_id, po_type = req_type req,
      po_time_in_force = (if req_type req = Market then IOC else DAY),
      po_limit_price = (if req_type req = Market then None else Some (format_g10 (req_price req)))\<rparr>"

definition upsert :: "order_client \<Rightarrow> order_state \<Rightarrow> order_update \<times> order_client" where
  "upsert c st =
     (let lid = os_local_id st;
          prev_filled = (case orders c lid of Some ord \<Rightarrow> os_qty_filled ord | None \<Rightarrow> 0);
          delta_filled = wrap32 (os_qty_filled st - prev_filled);
          upd = \<lparr>order_no = 0, transaction_id = wrap32 lid, upd_symbol = os_symbol st,
                 upd_client_id = account_id c, upd_side = os_side st, upd_status = os_status st,
                 upd_type = os_type st, upd_price = os_price st, upd_qty_total = os_qty_total st,
                 upd_qty_filled = delta_filled, upd_message = os_reject_reason st, upd_ts = os_ts st\<rparr>
      in (upd, c\<lparr>orders := (orders c)(lid \<mapsto> st)\<rparr>))"

text \<open>\<open>submit\<close> up to the call of \<open>PlaceOrder\<close>: an error, or the local id and the request sent.\<close>

definition submit_request :: "order_client \<Rightarrow> order_request \<Rightarrow> (int \<times> place_order) result \<times> order_client" where
  "submit_request c req =
     (case validate req of
        Some err \<Rightarrow> (Inl err, c)
      | None \<Rightarrow> (let (local_id, c1) = next_id c in (Inr (local_id, place_order_of c req local_id), c1)))"

text \<open>\<open>submit\<close> from the answer of \<open>PlaceOrder\<close> on.\<close>

definition submit_response ::
  "order_client \<Rightarrow> order_request \<Rightarrow> int \<Rightarrow> string + place_response \<Rightarrow> time_point
     \<Rightarrow> int result \<times> order_update list \<times> order_client" where
  "submit_response c req local_id rpc now =
     (case rpc of
        Inl msg \<Rightarrow> (Inl (mk_error RpcError msg), [], c)
      | Inr resp \<Rightarrow>
          (let (u, c1) = upsert c
                 \<lparr>os_order_id = pr_order_id resp, os_local_id = local_id, os_symbol = req_symbol req,
                  os_side = req_side req, os_status = map_status (pr_status resp), os_type = req_type req,
                  os_price = req_price req, os_qty_total = req_quantity req, os_qty_filled = 0,
                  os_reject_reason = [], os_ts = now\<rparr>
           in (Inr local_id, [u], c1)))"

definition submit ::
  "(place_order \<Rightarrow> string + place_response) \<Rightarrow> time_point \<Rightarrow> order_client \<Rightarrow> order_request
     \<Rightarrow> int result \<times> order_update list \<times> order_client" where
  "submit rpc now c req =
     (case submit_request c req of
        (Inl err, c1) \<Rightarrow> (Inl err, [], c1)
      | (Inr (local_id, po), c1) \<Rightarrow> submit_response c1 req local_id (rpc po) now)"

definition cancel :: "(string \<Rightarrow> string \<Rightarrow> string + unit) \<Rightarrow> order_client \<Rightarrow> int \<Rightarrow> unit result" where
  "cancel rpc c local_id =
     (case orders c local_id of
        None \<Rightarrow> Inl (mk_error InvalidArgument (''order local_id='' @ int_to_string local_id @ '' not found''))
      | Some ord \<Rightarrow>
          if os_order_id ord = [] then Inl (mk_error InvalidArgument ''exchange order_id is empty'')
          else case rpc (account_id c) (os_order_id ord) of
                 Inl msg \<Rightarrow> Inl (mk_error RpcError msg) | Inr _ \<Rightarrow> Inr ())"

definition is_active :: "order_status \<Rightarrow> bool" where
  "is_active s \<longleftrightarrow> s = Pending \<or> s = PartialFill"

text \<open>The table visited in \<open>order\<close>, an enumeration of its keys.\<close>

definition active_orders :: "int list \<Rightarrow> order_client \<Rightarrow> order_state list" where
  "active_orders order c = filter (\<lambda>st. is_active (os_status st)) (map (\<lambda>k. the (orders c k)) order)"

definition find_order :: "order_client \<Rightarrow> int \<Rightarrow> order_state option" where
  "find_order c local_id = orders c local_id"

text \<open>\<open>static_cast<int32_t>(std::stod(v))\<close> inside \<open>try\<close>, with 0 when it throws.\<close>

definition quantity_of :: "string \<Rightarrow> int" where
  "quantity_of v = (case stod v of Some x \<Rightarrow> cast_int 32 x | None \<Rightarrow> 0)"

definition on_stream_order :: "time_point \<Rightarrow> order_client \<Rightarrow> stream_order \<Rightarrow> order_update \<times> order_client" where
  "on_stream_order now c ord =
     (let local_id = (case stol (so_client_order_id ord) of Some i \<Rightarrow> i | None \<Rightarrow> 0);
          sy = (case orders c local_id of Some st \<Rightarrow> os_symbol st | None \<Rightarrow> empty_symbol)
      in upsert c
           \<lparr>os_order_id = so_order_id ord, os_local_id = local_id, os_symbol = sy,
            os_side = (if so_side_is_buy ord then Buy else Sell), os_status = map_status (so_status ord),
            os_type = (if so_type_is_market ord then Market else Limit), os_price = Fin 0,
            os_qty_total = quantity_of (so_initial_quantity ord),
            os_qty_filled = quantity_of (so_executed_quantity ord),
            os_reject_reason = [], os_ts = now\<rparr>)"

text \<open>One message of the stream: its orders one after another.\<close>

fun on_stream_response :: "time_point \<Rightarrow> order_client \<Rightarrow> stream_order list \<Rightarrow> order_update list \<times> order_client" where
  "on_stream_response now c [] = ([], c)"
| "on_stream_response now c (ord # ords) =
     (let (u, c1) = on_stream_order now c ord; (us, c2) = on_stream_response now c1 ords in (u # us, c2))"

section \<open>Integers are formatted and read back exactly\<close>

lemma digit_char_zero: "digit_char 0 = CHR ''0''"
  by code_simp

lemma nat_to_string_times10: "0 < m \<Longrightarrow> nat_to_string (m * 10) = nat_to_string m @ [CHR ''0'']"
  by (subst nat_to_string.simps) (simp add: digit_char_zero)

lemma nat_to_string_shift: "0 < n \<Longrightarrow> nat_to_string (n * 10 ^ k) = nat_to_string n @ replicate k (CHR ''0'')"
proof (induction k)
  case (Suc k)
  have "nat_to_string (n * 10 ^ Suc k) = nat_to_string ((n * 10 ^ k) * 10)" by (simp add: ac_simps)
  also have "\<dots> = nat_to_string n @ replicate k (CHR ''0'') @ [CHR ''0'']"
    using Suc nat_to_string_times10[of "n * 10 ^ k"] by simp
  finally show ?case by (simp add: replicate_append_same)
qed simp

lemma nat_to_string_length:
  "n < 10 ^ length (nat_to_string n) \<and> (0 < n \<longrightarrow> 10 ^ (length (nat_to_string n) - 1) \<le> n)"
proof (induction n rule: nat_to_string.induct)
  case (1 n)
  show ?case
  proof (cases "n < 10")
    case True
    then show ?thesis by (subst (1 2) nat_to_string.simps) simp
  next
    case False
    let ?l = "length (nat_to_string (n div 10))"
    have ih: "n div 10 < 10 ^ ?l" "10 ^ (?l - 1) \<le> n div 10" using 1 False by simp_all
    have "0 < ?l" using nat_to_string_digits[of "n div 10"] by simp
    then have "10 * 10 ^ (?l - 1) = (10::nat) ^ ?l" by (simp flip: power_Suc)
    with ih have "n < 10 ^ Suc ?l" "10 ^ ?l \<le> n" by simp_all
    then show ?thesis using False by (subst (1 2) nat_to_string.simps) simp
  qed
qed

lemma strip_zeros_replicate: "strip_zeros (replicate k (CHR ''0'')) = []"
  by (simp add: strip_zeros_def)

lemma format_pos_nat:
  assumes "0 < n" "n < 10 ^ 10"
  shows "format_pos (of_nat n) = nat_to_string n"
proof -
  define L where "L = length (nat_to_string n)"
  have L: "0 < L" "n < 10 ^ L" "10 ^ (L - 1) \<le> n"
    using nat_to_string_digits[of n] nat_to_string_length[of n] assms(1) by (simp_all add: L_def)
  have "(10::nat) ^ (L - 1) < 10 ^ 10" using L(3) assms(2) by (rule order_le_less_trans)
  then have L10: "L \<le> 10" using power_less_imp_less_exp[of "10::nat" "L - 1" 10] L(1) by simp
  have x: "log10_floor (of_nat n) = int L - 1" using assms(1) by (simp add: log10_floor_def L_def)
  have "rat_of_nat n * 10 powi (9 - (int L - 1)) = of_int (int (n * 10 ^ (10 - L)))"
    using L10 by (simp add: power_int_def nat_diff_distrib')
  then have m: "round_even (rat_of_nat n * 10 powi (9 - (int L - 1))) = int (n * 10 ^ (10 - L))"
    by (simp only: round_even_int)
  have "n * 10 ^ (10 - L) < 10 ^ L * 10 ^ (10 - L)" using L(2) by simp
  also have "\<dots> = 10 ^ 10" using L10 by (simp flip: power_add)
  finally have "int (n * 10 ^ (10 - L)) \<noteq> 10 ^ 10" by (metis less_irrefl of_nat_eq_iff of_nat_numeral of_nat_power)
  then have td: "ten_digits (of_nat n) = (int (n * 10 ^ (10 - L)), int L - 1)"
    unfolding ten_digits_def x Let_def m by (simp del: of_nat_mult)
  have ds: "nat_to_string (n * 10 ^ (10 - L)) = nat_to_string n @ replicate (10 - L) (CHR ''0'')"
    using nat_to_string_shift[OF assms(1)] .
  have "nat (int L - 1) + 1 = L" using L(1) by simp
  then show ?thesis
    using L(1) L10 by (simp add: format_pos_def td ds with_fraction_def strip_zeros_replicate
        flip: L_def del: of_nat_mult)
qed

lemma quantity_round_trip:
  assumes "0 < q" "q < 2 ^ 31"
  shows "quantity_of (format_g10 (double_of_int q)) = q"
proof -
  define n where "n = nat q"
  have n: "q = int n" "0 < n" "n < 2 ^ 31" using assms by (auto simp: n_def)
  have d: "double_of_int q = Fin (of_nat n)" using n double_of_int_exact[of q] by simp
  have "format_g10 (double_of_int q) = nat_to_string n"
    unfolding d using n format_pos_nat[of n] by (simp add: format_g10_def)
  moreover have "stod (nat_to_string n) = Some (Fin (of_int (int n)))" using stod_digits[of n] n by simp
  moreover have "cast_int 32 (Fin (of_int (int n))) = int n" by (rule cast_int_Fin_int) (use n in auto)
  ultimately show ?thesis by (simp add: quantity_of_def n(1))
qed

section \<open>The client as a machine\<close>

datatype oc_op = OcRequest order_request
  | OcResponse order_request int "string + place_response" time_point
  | OcStream time_point stream_order

fun oc_step :: "order_client \<Rightarrow> oc_op \<Rightarrow> order_client" where
  "oc_step c (OcRequest req) = snd (submit_request c req)"
| "oc_step c (OcResponse req lid rpc now) = snd (snd (submit_response c req lid rpc now))"
| "oc_step c (OcStream now ord) = snd (on_stream_order now c ord)"

definition stream_local_id :: "stream_order \<Rightarrow> int" where
  "stream_local_id ord = (case stol (so_client_order_id ord) of Some i \<Rightarrow> i | None \<Rightarrow> 0)"

text \<open>The updates a step hands to the callback, with the local id they are about.\<close>

fun oc_updates :: "order_client \<Rightarrow> oc_op \<Rightarrow> (int \<times> order_update) list" where
  "oc_updates c (OcRequest req) = []"
| "oc_updates c (OcResponse req lid rpc now) = map (\<lambda>u. (lid, u)) (fst (snd (submit_response c req lid rpc now)))"
| "oc_updates c (OcStream now ord) = [(stream_local_id ord, fst (on_stream_order now c ord))]"

fun oc_run_updates :: "order_client \<Rightarrow> oc_op list \<Rightarrow> (int \<times> order_update) list" where
  "oc_run_updates c [] = []"
| "oc_run_updates c (op # ops) = oc_updates c op @ oc_run_updates (oc_step c op) ops"

definition filled_of :: "order_client \<Rightarrow> int \<Rightarrow> int" where
  "filled_of c lid = (case orders c lid of Some st \<Rightarrow> os_qty_filled st | None \<Rightarrow> 0)"

definition reported :: "int \<Rightarrow> (int \<times> order_update) list \<Rightarrow> int" where
  "reported lid us = sum_list (map (\<lambda>(i, u). if i = lid then upd_qty_filled u else 0) us)"

lemma reported_append [simp]: "reported lid (us @ vs) = reported lid us + reported lid vs"
  by (simp add: reported_def)

lemma reported_simps [simp]:
  "reported lid [] = 0" "reported lid [(i, u)] = (if i = lid then upd_qty_filled u else 0)"
  by (simp_all add: reported_def)

lemma upsert_fields:
  "upd_qty_filled (fst (upsert c st)) = wrap32 (os_qty_filled st - filled_of c (os_local_id st))"
  "filled_of (snd (upsert c st)) lid = (if lid = os_local_id st then os_qty_filled st else filled_of c lid)"
  "upd_price (fst (upsert c st)) = os_price st" "upd_status (fst (upsert c st)) = os_status st"
  "upd_side (fst (upsert c st)) = os_side st" "upd_symbol (fst (upsert c st)) = os_symbol st"
  by (simp_all add: upsert_def Let_def filled_of_def)

lemma quantity_of_range: "- (2 ^ 31) \<le> quantity_of v \<and> quantity_of v < 2 ^ 31"
  using cast_int_range[of 32] by (auto simp: quantity_of_def split: option.split)

definition int32s :: "order_client \<Rightarrow> bool" where
  "int32s c \<longleftrightarrow> (\<forall>lid. wrap32 (filled_of c lid) = filled_of c lid)"

text \<open>One step: what it reports for an order is the change of its filled quantity.\<close>

lemma reported_step:
  assumes "int32s c"
  shows "int32s (oc_step c op)
    \<and> wrap32 (reported lid (oc_updates c op)) = wrap32 (filled_of (oc_step c op) lid - filled_of c lid)"
proof (cases op)
  case (OcRequest req)
  have "filled_of (snd (submit_request c req)) = filled_of c"
    by (auto simp: submit_request_def next_id_def filled_of_def fun_eq_iff split: option.split)
  then show ?thesis using assms OcRequest by (simp add: int32s_def)
next
  case (OcResponse req i rpc now)
  then show ?thesis using assms
    by (cases rpc) (auto simp: submit_response_def Let_def case_prod_beta upsert_fields int32s_def)
next
  case (OcStream now ord)
  have "wrap32 (quantity_of v) = quantity_of v" for v using quantity_of_range[of v] by (simp add: wrap32_id)
  then show ?thesis using assms OcStream
    by (auto simp: on_stream_order_def stream_local_id_def Let_def upsert_fields int32s_def)
qed

lemma reported_run:
  "int32s c \<Longrightarrow>
   wrap32 (reported lid (oc_run_updates c ops)) = wrap32 (filled_of (foldl oc_step c ops) lid - filled_of c lid)
   \<and> int32s (foldl oc_step c ops)"
proof (induction ops arbitrary: c)
  case (Cons op ops)
  let ?c = "oc_step c op"
  note st = reported_step[OF Cons.prems, of op lid]
  have "wrap32 (reported lid (oc_run_updates c (op # ops)))
      = wrap32 (wrap32 (reported lid (oc_updates c op)) + wrap32 (reported lid (oc_run_updates ?c ops)))"
    by (simp add: signed_take_bit_add)
  also have "\<dots> = wrap32 (filled_of ?c lid - filled_of c lid
      + (filled_of (foldl oc_step ?c ops) lid - filled_of ?c lid))"
    using st Cons.IH[of ?c] by (simp add: signed_take_bit_add)
  finally show ?case using st Cons.IH[of ?c] by simp
qed simp

section \<open>The executor interface\<close>

text \<open>
  \<open>IOrderExecutor\<close>: what the runner may rely on is that ids of accepted orders increase.
  \<open>room s n\<close> says that the counter of \<open>s\<close> has room for \<open>n\<close> more orders.
\<close>

fun run_submits :: "('s \<Rightarrow> order_request \<Rightarrow> int result \<times> 's) \<Rightarrow> 's \<Rightarrow> order_request list \<Rightarrow> int list" where
  "run_submits sub s [] = []"
| "run_submits sub s (req # reqs) =
     (case sub s req of
        (Inr i, s') \<Rightarrow> i # run_submits sub s' reqs
      | (Inl _, s') \<Rightarrow> run_submits sub s' reqs)"

locale order_executor =
  fixes submit_op :: "'s \<Rightarrow> order_request \<Rightarrow> int result \<times> 's"
    and issued :: "'s \<Rightarrow> int"
    and room :: "'s \<Rightarrow> nat \<Rightarrow> bool"
  assumes submit_room: "room s (Suc n) \<Longrightarrow> submit_op s req = (r, s') \<Longrightarrow> room s' n"
    and submit_issued: "room s (Suc n) \<Longrightarrow> submit_op s req = (r, s') \<Longrightarrow> issued s \<le> issued s'"
    and submit_fresh: "room s (Suc n) \<Longrightarrow> submit_op s req = (Inr i, s') \<Longrightarrow> issued s < i \<and> i \<le> issued s'"
begin

lemma ids_increase:
  "room s (length reqs) \<Longrightarrow>
   sorted_wrt (<) (run_submits submit_op s reqs) \<and> (\<forall>i \<in> set (run_submits submit_op s reqs). issued s < i)"
proof (induction reqs arbitrary: s)
  case (Cons req reqs)
  obtain r s' where rs: "submit_op s req = (r, s')" by fastforce
  have rm: "room s (Suc (length reqs))" using Cons.prems by simp
  note ih = Cons.IH[OF submit_room[OF rm rs]] and le = submit_issued[OF rm rs]
  show ?case
  proof (cases r)
    case (Inl e)
    then show ?thesis using rs ih le by auto
  next
    case (Inr i)
    then show ?thesis using rs ih le submit_fresh[OF rm, of req i s'] by auto
  qed
qed simp

lemma ids_distinct: "room s (length reqs) \<Longrightarrow> distinct (run_submits submit_op s reqs)"
  using ids_increase strict_sorted_iff by blast

end

definition client_submit ::
  "(place_order \<Rightarrow> string + place_response) \<Rightarrow> time_point \<Rightarrow> order_client \<Rightarrow> order_request \<Rightarrow> int result \<times> order_client" where
  "client_submit rpc now c req = (case submit rpc now c req of (r, us, c') \<Rightarrow> (r, c'))"

definition client_room :: "order_client \<Rightarrow> nat \<Rightarrow> bool" where
  "client_room c n \<longleftrightarrow> 0 < id_counter c \<and> id_counter c + int n < 2 ^ 63"

lemma upsert_counter [simp]: "id_counter (snd (upsert c st)) = id_counter c"
  by (simp add: upsert_def Let_def)

lemma client_submit_counter:
  assumes "client_room c (Suc n)" "client_submit rpc now c req = (r, c')"
  shows "if validate req = None
    then id_counter c' = id_counter c + 1 \<and> (\<forall>i. r = Inr i \<longrightarrow> i = id_counter c)
    else id_counter c' = id_counter c \<and> (\<forall>i. r \<noteq> Inr i)"
proof -
  have "wrap64 (id_counter c + 1) = id_counter c + 1" using assms(1) by (intro wrap64_id) (auto simp: client_room_def)
  then show ?thesis using assms(2)
    by (auto simp: client_submit_def submit_def submit_request_def next_id_def submit_response_def Let_def
        case_prod_beta split: option.splits sum.splits)
qed

interpretation client_executor: order_executor "client_submit rpc now" "\<lambda>c. id_counter c - 1" client_room
proof
  fix c n req r c'
  assume a: "client_room c (Suc n)" "client_submit rpc now c req = (r, c')"
  note cc = client_submit_counter[OF a]
  show "client_room c' n" using cc a(1) by (auto simp: client_room_def split: if_splits)
  show "id_counter c - 1 \<le> id_counter c' - 1" using cc by (auto split: if_splits)
next
  fix c n req i c'
  assume a: "client_room c (Suc n)" "client_submit rpc now c req = (Inr i, c')"
  show "id_counter c - 1 < i \<and> i \<le> id_counter c' - 1"
    using client_submit_counter[OF a] by (auto split: if_splits)
qed

section \<open>Properties\<close>


text \<open>
  C23: a placed order can be recognised and its size read back. The client order id the
  request carries is parsed by the stream handler to the local id, and the quantity text
  that \<open>%.10g\<close> prints is parsed back to the requested number of lots.
\<close>

theorem placed_order_round_trip:
  assumes "submit_request c req = (Inr (lid, po), c')"
    and "req_quantity req < 2 ^ 31" and "0 < id_counter c" and "id_counter c < 2 ^ 63"
  shows "stol (po_client_order_id po) = Some lid \<and> quantity_of (po_quantity po) = req_quantity req
    \<and> lid = id_counter c"
proof -
  have v: "validate req = None" and po: "lid = id_counter c" "po = place_order_of c req lid"
    using assms(1) by (auto simp: submit_request_def next_id_def split: option.splits)
  have q: "0 < req_quantity req" using v by (auto simp: validate_def split: if_splits)
  have "stol (int_to_string lid) = Some lid"
    using parse_int_print[of 64 lid "[]"] assms(3,4) po(1) by (simp add: stol_def)
  then show ?thesis using quantity_round_trip[OF q assms(2)] po by (simp add: place_order_of_def)
qed

definition market_order :: "order_side \<Rightarrow> int \<Rightarrow> order_request" where
  "market_order side qty = \<lparr>req_client_id = ''acc'', req_symbol = \<lparr>security_code = ''SiM6'', security_board = ''RTSX''\<rparr>,
     req_side = side, req_type = Market, req_price = Fin 0, req_quantity = qty\<rparr>"

theorem placed_order_round_trip_witness:
  "quantity_of (po_quantity (place_order_of (new_order_client ''acc'') (market_order Buy 25) 1)) = 25"
proof -
  have "submit_request (new_order_client ''acc'') (market_order Buy 25)
      = (Inr (1, place_order_of (new_order_client ''acc'') (market_order Buy 25) 1),
         (new_order_client ''acc'')\<lparr>id_counter := wrap64 2\<rparr>)"
    by (simp add: submit_request_def validate_def market_order_def next_id_def new_order_client_def)
  from placed_order_round_trip[OF this] show ?thesis by (simp add: market_order_def new_order_client_def)
qed

text \<open>
  Order ids are unique. In any sequence of \<open>submit\<close> calls, with any answers of the
  broker, the ids of the accepted orders strictly increase as long as the 64-bit counter has
  room.
\<close>

lemma submit_ids_increase:
  assumes "0 < id_counter c" and "id_counter c + int (length reqs) < 2 ^ 63"
  shows "sorted_wrt (<) (run_submits (client_submit rpc now) c reqs)"
  using client_executor.ids_increase[of c reqs] assms by (simp add: client_room_def)

text \<open>
  The outcome of \<open>submit\<close> on every branch. An invalid request is refused with the
  validation error before anything is sent or changed; a failed call returns \<open>RpcError\<close> and
  leaves the table alone; a successful one returns the id, records the order under it with
  nothing filled, changes no other order, and reports one update for the requested instrument.
\<close>

lemma submit_outcome:
  assumes "submit rpc now c req = (r, us, c')"
  shows "case validate req of
      Some err \<Rightarrow> r = Inl err \<and> us = [] \<and> c' = c
    | None \<Rightarrow>
        (case rpc (place_order_of c req (id_counter c)) of
           Inl msg \<Rightarrow> r = Inl (mk_error RpcError msg) \<and> us = [] \<and> orders c' = orders c
         | Inr resp \<Rightarrow>
             r = Inr (id_counter c)
             \<and> (\<exists>st. find_order c' (id_counter c) = Some st \<and> os_order_id st = pr_order_id resp
                  \<and> os_symbol st = req_symbol req \<and> os_side st = req_side req
                  \<and> os_status st = map_status (pr_status resp)
                  \<and> os_qty_total st = req_quantity req \<and> os_qty_filled st = 0)
             \<and> (\<forall>i. i \<noteq> id_counter c \<longrightarrow> find_order c' i = find_order c i)
             \<and> (\<exists>u. us = [u] \<and> upd_symbol u = req_symbol req \<and> upd_price u = req_price req))"
  using assms
  by (auto simp: submit_def submit_request_def next_id_def submit_response_def upsert_def find_order_def Let_def
      split: option.splits sum.splits)

text \<open>
  Cancelling a placed order addresses the broker's id. After a successful \<open>submit\<close> whose
  answer carried an exchange id, \<open>cancel\<close> of the returned local id asks the broker to
  cancel that exchange id of this account, and succeeds when the broker does.
\<close>

lemma cancel_after_submit:
  assumes "submit rpc now c req = (Inr lid, us, c')"
    and "rpc (place_order_of c req (id_counter c)) = Inr resp" and "pr_order_id resp \<noteq> []"
  shows "cancel crpc c' lid =
    (case crpc (account_id c) (pr_order_id resp) of Inl msg \<Rightarrow> Inl (mk_error RpcError msg) | Inr _ \<Rightarrow> Inr ())"
  using assms
  by (auto simp: submit_def submit_request_def next_id_def submit_response_def upsert_def cancel_def Let_def
      split: option.splits)

end
