(* ===== verification/Strategy_Runner.thy ===== *)
theory Strategy_Runner
  imports Spsc_Queue Subscriptions Confluence Risk_Manager Order_Client
begin

text \<open>
  \<open>src/strategy/strategy_runner.hpp\<close>: the event loop around one strategy. A \<open>desk\<close> is a
  runner with the risk manager and the executor it shares with the others; \<open>sent\<close> logs the
  requests handed to \<open>executor_->submit\<close>.

  Parameters, in a \<open>runner_env\<close>: the mathematical library, the account id, the broker's margin
  answers, the clock, the history service, the visiting order of the risk manager's hash map,
  and the executor (\<open>IOrderExecutor\<close>), whose \<open>submit\<close> returns the updates it passes to the
  order callback before it returns.
\<close>

section \<open>State\<close>

datatype md_event = MdBook book_level_event | MdTrade trade_event | MdQuote quote
  | MdUpdate order_update | MdRollover symbol

abbreviation kQueueSize :: nat where
  "kQueueSize \<equiv> 1024"

text \<open>The runner's subscription handles, and the threads started for it so far.\<close>

record runner_subs =
  book_sub :: sub_handle
  trade_sub :: sub_handle
  quote_sub :: sub_handle
  m1_bar_sub :: sub_handle
  d1_bar_sub :: sub_handle
  sub_threads :: "sub_thread list"

record runner =
  rn_strategy :: confluence_strategy
  base_ticker :: string
  history_days :: int
  rn_rollover_days :: int
  queue :: "md_event spsc_queue"
  active_symbol :: symbol
  subs :: runner_subs

record 'x desk =
  the_runner :: runner
  risk :: "risk_manager option"
  executor :: 'x
  sent :: "order_request list"

record 'x runner_env =
  env_libm :: libm
  env_account :: string
  env_margin :: "symbol \<Rightarrow> string + asset_params"
  env_now :: time_point
  env_bars :: "symbol \<Rightarrow> string \<Rightarrow> time_point \<Rightarrow> time_point \<Rightarrow> bar list result"
  env_visit :: "risk_manager \<Rightarrow> int list"
  env_submit :: "'x \<Rightarrow> order_request \<Rightarrow> int result \<times> order_update list \<times> 'x"

section \<open>Order updates\<close>

text \<open>The body of the callback that \<open>make_order_callback\<close> returns; a full queue drops the update.\<close>

definition order_callback :: "'x runner_env \<Rightarrow> 'x desk \<Rightarrow> order_update \<Rightarrow> 'x desk" where
  "order_callback E d u =
     (if upd_symbol u \<noteq> active_symbol (the_runner d) \<and> security_code (upd_symbol u) \<noteq> [] then d
      else let risk' = (case risk d of
                          None \<Rightarrow> None
                        | Some r \<Rightarrow>
                            if (upd_status u = Filled \<or> upd_status u = PartialFill) \<and> 0 < upd_qty_filled u
                            then Some (on_fill (env_visit E r) r u) else Some r);
               q' = snd (push (queue (the_runner d)) (MdUpdate u))
           in d\<lparr>risk := risk', the_runner := (the_runner d)\<lparr>queue := q'\<rparr>\<rparr>)"

section \<open>Signals\<close>

definition request_of :: "string \<Rightarrow> signal \<Rightarrow> order_request" where
  "request_of acc g =
     (let is_close = (sig_direction g = DirClose)
      in \<lparr>req_client_id = acc, req_symbol = sig_symbol g,
          req_side = (if \<not> is_close \<and> sig_direction g = DirBuy then Buy else Sell),
          req_type = sig_order_type g, req_price = sig_price g, req_quantity = sig_quantity g\<rparr>)"

definition submit_order :: "'x runner_env \<Rightarrow> 'x desk \<Rightarrow> order_request \<Rightarrow> 'x desk" where
  "submit_order E d req =
     (case env_submit E (executor d) req of
        (_, us, x') \<Rightarrow> foldl (order_callback E) (d\<lparr>executor := x', sent := sent d @ [req]\<rparr>) us)"

definition handle_signal :: "'x runner_env \<Rightarrow> 'x desk \<Rightarrow> signal \<Rightarrow> 'x desk" where
  "handle_signal E d g =
     (if sig_direction g = DirNone then d
      else let is_close = (sig_direction g = DirClose);
               req = request_of (env_account E) g
           in case (if is_close then None else risk d) of
                None \<Rightarrow> submit_order E d req
              | Some r \<Rightarrow>
                  (case check (env_margin E) (env_now E) r req of
                     Inl e \<Rightarrow>
                       if err_code e = DailyLossLimitHit \<or> err_code e = RiskLimitExceeded
                       then d\<lparr>risk := Some (trip_circuit_breaker r (err_message e))\<rparr> else d
                   | Inr _ \<Rightarrow> submit_order E d req))"

section \<open>History, subscriptions, rollover\<close>

definition load_history :: "'x runner_env \<Rightarrow> runner \<Rightarrow> symbol \<Rightarrow> runner" where
  "load_history E rn sy =
     (let to = env_now E; from = to - seconds (3600 * (24 * history_days rn))
      in case env_bars E sy ''D1'' from to of
           Inl _ \<Rightarrow> rn
         | Inr bars \<Rightarrow> rn\<lparr>rn_strategy := foldl (\<lambda>s b. snd (on_bar s b)) (rn_strategy rn) bars\<rparr>)"

definition start_subs :: "symbol \<Rightarrow> runner_subs \<Rightarrow> runner_subs" where
  "start_subs sy s =
     (let (b, ts1) = resubscribe (SubBook, sy) (book_sub s) (sub_threads s);
          (t, ts2) = resubscribe (SubTrades, sy) (trade_sub s) ts1;
          (q, ts3) = resubscribe (SubQuotes, sy) (quote_sub s) ts2;
          (m1, ts4) = resubscribe (SubBars ''M1'', sy) (m1_bar_sub s) ts3;
          (d1, ts5) = resubscribe (SubBars ''D1'', sy) (d1_bar_sub s) ts4
      in \<lparr>book_sub = b, trade_sub = t, quote_sub = q, m1_bar_sub = m1, d1_bar_sub = d1, sub_threads = ts5\<rparr>)"

definition start_subscriptions :: "runner \<Rightarrow> symbol \<Rightarrow> runner" where
  "start_subscriptions rn sy = rn\<lparr>subs := start_subs sy (subs rn)\<rparr>"

definition stop_subs :: "runner_subs \<Rightarrow> runner_subs" where
  "stop_subs s =
     (let ts1 = release (book_sub s) (sub_threads s);
          ts2 = release (trade_sub s) ts1;
          ts3 = release (quote_sub s) ts2;
          ts4 = release (m1_bar_sub s) ts3;
          ts5 = release (d1_bar_sub s) ts4
      in \<lparr>book_sub = None, trade_sub = None, quote_sub = None, m1_bar_sub = None, d1_bar_sub = None,
          sub_threads = ts5\<rparr>)"

definition unsubscribe_all :: "runner \<Rightarrow> runner" where
  "unsubscribe_all rn = rn\<lparr>subs := stop_subs (subs rn)\<rparr>"

definition on_rollover :: "'x runner_env \<Rightarrow> runner \<Rightarrow> symbol \<Rightarrow> runner" where
  "on_rollover E rn sy =
     (let rn1 = unsubscribe_all rn;
          rn2 = rn1\<lparr>rn_strategy := on_session_open (rn_strategy rn1)\<rparr>;
          rn3 = rn2\<lparr>active_symbol := sy\<rparr>;
          rn4 = load_history E rn3 sy
      in start_subscriptions rn4 sy)"

text \<open>One pass of the watchdog; a full queue drops the event.\<close>

definition check_rollover :: "runner \<Rightarrow> time_point \<Rightarrow> runner" where
  "check_rollover rn now =
     (let nxt = nearest_contract (base_ticker rn) (rn_rollover_days rn) now
      in if security_code nxt = security_code (active_symbol rn) then rn
         else rn\<lparr>queue := snd (push (queue rn) (MdRollover nxt))\<rparr>)"

text \<open>The value-initialised \<open>std::variant\<close> the slots of the queue start with.\<close>

definition default_md_event :: md_event where
  "default_md_event = MdBook \<lparr>ble_level = 0, ble_price = Fin 0, old_bid_size = Fin 0, new_bid_size = Fin 0,
                              old_ask_size = Fin 0, new_ask_size = Fin 0, ble_ts = 0\<rparr>"

definition no_subs :: runner_subs where
  "no_subs = \<lparr>book_sub = None, trade_sub = None, quote_sub = None, m1_bar_sub = None, d1_bar_sub = None, sub_threads = []\<rparr>"

definition new_runner ::
  "'x runner_env \<Rightarrow> confluence_config \<Rightarrow> string \<Rightarrow> int \<Rightarrow> int \<Rightarrow> runner" where
  "new_runner E cfg ticker hist rollover =
     (let rn = \<lparr>rn_strategy = new_confluence (env_libm E) cfg, base_ticker = ticker, history_days = hist,
                rn_rollover_days = rollover, queue = new_queue default_md_event kQueueSize,
                active_symbol = cs_symbol cfg, subs = no_subs\<rparr>
      in start_subscriptions (load_history E rn (cs_symbol cfg)) (cs_symbol cfg))"

section \<open>Dispatch\<close>

abbreviation set_strategy :: "'x desk \<Rightarrow> confluence_strategy \<Rightarrow> 'x desk" where
  "set_strategy d s \<equiv> d\<lparr>the_runner := (the_runner d)\<lparr>rn_strategy := s\<rparr>\<rparr>"

fun dispatch :: "'x runner_env \<Rightarrow> 'x desk \<Rightarrow> md_event \<Rightarrow> 'x desk" where
  "dispatch E d (MdBook e) =
     (case on_book_event (env_libm E) (rn_strategy (the_runner d)) e of
        (Some g, s) \<Rightarrow> handle_signal E (set_strategy d s) g
      | (None, s) \<Rightarrow> set_strategy d s)"
| "dispatch E d (MdTrade e) =
     (case on_trade_event (rn_strategy (the_runner d)) e of
        (Some g, s) \<Rightarrow> handle_signal E (set_strategy d s) g
      | (None, s) \<Rightarrow> set_strategy d s)"
| "dispatch E d (MdQuote q) =
     (case on_quote (update_bbo (rn_strategy (the_runner d)) (q_bid q) (q_ask q)) q of
        (g, s) \<Rightarrow> if sig_direction g \<noteq> DirNone then handle_signal E (set_strategy d s) g
                  else set_strategy d s)"
| "dispatch E d (MdUpdate u) = set_strategy d (on_order_update (rn_strategy (the_runner d)) u)"
| "dispatch E d (MdRollover sy) = d\<lparr>the_runner := on_rollover E (the_runner d) sy\<rparr>"

text \<open>The loop \<open>while (auto event = queue_.pop())\<close>, with a bound on its passes.\<close>

fun drain_queue :: "nat \<Rightarrow> 'x runner_env \<Rightarrow> 'x desk \<Rightarrow> 'x desk option" where
  "drain_queue 0 E d = None"
| "drain_queue (Suc n) E d =
     (case pop (queue (the_runner d)) of
        (None, q) \<Rightarrow> Some (d\<lparr>the_runner := (the_runner d)\<lparr>queue := q\<rparr>\<rparr>)
      | (Some ev, q) \<Rightarrow> drain_queue n E (dispatch E (d\<lparr>the_runner := (the_runner d)\<lparr>queue := q\<rparr>\<rparr>) ev))"

text \<open>
  The loop of the strategy thread, and whether it has ended. \<open>stops i\<close> is what load number \<open>i\<close> of
  the stop flag sees; while the thread sleeps, other threads change the desk.
\<close>

fun strategy_thread ::
  "nat \<Rightarrow> (nat \<Rightarrow> bool) \<Rightarrow> nat \<Rightarrow> 'x runner_env \<Rightarrow> 'x desk \<Rightarrow> ('x desk \<Rightarrow> 'x desk) list \<Rightarrow> (bool \<times> 'x desk) option" where
  "strategy_thread fuel stops i E d [] = Some (False, d)"
| "strategy_thread fuel stops i E d (meanwhile # ms) =
     (if stops i then map_option (Pair True) (drain_queue fuel E d)
      else (case drain_queue fuel E d of
              None \<Rightarrow> None
            | Some d1 \<Rightarrow> strategy_thread fuel stops (Suc i) E (meanwhile d1) ms))"

text \<open>The loop of the watchdog: a sleep of a minute, during which the runner may change, then a check.\<close>

fun rollover_watchdog ::
  "(nat \<Rightarrow> bool) \<Rightarrow> nat \<Rightarrow> runner \<Rightarrow> ((runner \<Rightarrow> runner) \<times> time_point) list \<Rightarrow> bool \<times> runner" where
  "rollover_watchdog stops i rn [] = (False, rn)"
| "rollover_watchdog stops i rn ((meanwhile, now) # ms) =
     (if stops i then (True, rn)
      else if stops (Suc i) then (True, meanwhile rn)
      else rollover_watchdog stops (Suc (Suc i)) (check_rollover (meanwhile rn) now) ms)"

text \<open>The callbacks of the book, trade and quote subscriptions; a full queue drops the event.\<close>

definition md_callback :: "runner \<Rightarrow> md_event \<Rightarrow> runner" where
  "md_callback rn ev = rn\<lparr>queue := snd (push (queue rn) ev)\<rparr>"

text \<open>Bars reach the strategy directly from the subscription's thread.\<close>

definition on_bar_callback :: "'x desk \<Rightarrow> bar \<Rightarrow> 'x desk" where
  "on_bar_callback d b = set_strategy d (snd (on_bar (rn_strategy (the_runner d)) b))"

section \<open>Frame\<close>

lemma order_callback_frame [simp]:
  "rn_strategy (the_runner (order_callback E d u)) = rn_strategy (the_runner d)"
  "active_symbol (the_runner (order_callback E d u)) = active_symbol (the_runner d)"
  "sent (order_callback E d u) = sent d" "executor (order_callback E d u) = executor d"
  "subs (the_runner (order_callback E d u)) = subs (the_runner d)"
  "base_ticker (the_runner (order_callback E d u)) = base_ticker (the_runner d)"
  by (simp_all add: order_callback_def Let_def)

lemma order_callbacks_frame [simp]:
  "rn_strategy (the_runner (foldl (order_callback E) d us)) = rn_strategy (the_runner d)"
  "active_symbol (the_runner (foldl (order_callback E) d us)) = active_symbol (the_runner d)"
  "sent (foldl (order_callback E) d us) = sent d"
  "subs (the_runner (foldl (order_callback E) d us)) = subs (the_runner d)"
  "base_ticker (the_runner (foldl (order_callback E) d us)) = base_ticker (the_runner d)"
  by (induction us arbitrary: d) simp_all

lemma submit_order_frame [simp]:
  "rn_strategy (the_runner (submit_order E d req)) = rn_strategy (the_runner d)"
  "active_symbol (the_runner (submit_order E d req)) = active_symbol (the_runner d)"
  "sent (submit_order E d req) = sent d @ [req]"
  "subs (the_runner (submit_order E d req)) = subs (the_runner d)"
  "base_ticker (the_runner (submit_order E d req)) = base_ticker (the_runner d)"
  by (simp_all add: submit_order_def split: prod.split)

lemma handle_signal_frame [simp]:
  "rn_strategy (the_runner (handle_signal E d g)) = rn_strategy (the_runner d)"
  "active_symbol (the_runner (handle_signal E d g)) = active_symbol (the_runner d)"
  "subs (the_runner (handle_signal E d g)) = subs (the_runner d)"
  "base_ticker (the_runner (handle_signal E d g)) = base_ticker (the_runner d)"
  by (simp_all add: handle_signal_def Let_def split: option.split sum.split)

lemma cs_cfg_step [simp]:
  "cs_cfg (snd (on_bar s b)) = cs_cfg s" "cs_cfg (snd (on_quote s q)) = cs_cfg s"
  "cs_cfg (update_bbo s x y) = cs_cfg s" "cs_cfg (on_order_update s u) = cs_cfg s"
  "cs_cfg (on_session_open s) = cs_cfg s"
proof -
  have h: "cs_cfg (handle_session_open t ts) = cs_cfg t" for t ts
    using handle_session_open_cases[of t ts] by (auto simp: on_session_open_def)
  show "cs_cfg (snd (on_bar s b)) = cs_cfg s"
    by (simp add: on_bar_def h Let_def split: bar_timeframe.split)
  show "cs_cfg (snd (on_quote s q)) = cs_cfg s" by (simp add: on_quote_state h)
qed (simp_all add: update_bbo_def on_order_update_def on_session_open_def Let_def)

lemma load_history_frame [simp]:
  "cs_cfg (rn_strategy (load_history E rn sy)) = cs_cfg (rn_strategy rn)"
  "active_symbol (load_history E rn sy) = active_symbol rn" "queue (load_history E rn sy) = queue rn"
  "subs (load_history E rn sy) = subs rn" "base_ticker (load_history E rn sy) = base_ticker rn"
proof -
  have "cs_cfg (foldl (\<lambda>s b. snd (on_bar s b)) s bars) = cs_cfg s" for s bars
    by (induction bars arbitrary: s) simp_all
  then show "cs_cfg (rn_strategy (load_history E rn sy)) = cs_cfg (rn_strategy rn)"
    by (simp add: load_history_def Let_def split: sum.split)
qed (simp_all add: load_history_def Let_def split: sum.split)

lemma entry_direction:
  "cs_entry M s op = Some g \<Longrightarrow> sig_direction g = DirBuy \<or> sig_direction g = DirSell"
  by (erule cs_entry_try) (auto simp: try_enter_iff entry_order_def split: if_splits)

text \<open>The orders the strategy asks for are market orders without a price.\<close>

lemma entry_market:
  "cs_entry M s op = Some g \<Longrightarrow> sig_price g = Fin 0 \<and> sig_order_type g = Market"
  by (erule cs_entry_try) (auto simp: try_enter_iff entry_order_def)

lemma quote_market: "sig_price (fst (on_quote s q)) = Fin 0 \<and> sig_order_type (fst (on_quote s q)) = Market"
  by (auto simp: on_quote_def check_exit_def close_signal_def no_signal_def Let_def split: option.split if_splits)

text \<open>
  What the dispatch of an event may be: a change of the strategy, the execution of a signal, or a
  rollover. Only a quote closes.
\<close>

lemma dispatch_cases:
  obtains (quiet) s where "dispatch E d ev = set_strategy d s" "cs_cfg s = cs_cfg (rn_strategy (the_runner d))"
      "\<forall>sy. ev \<noteq> MdRollover sy"
  | (signal) s g where "dispatch E d ev = handle_signal E (set_strategy d s) g"
      "cs_cfg s = cs_cfg (rn_strategy (the_runner d))" "sig_direction g \<noteq> DirClose \<or> (\<exists>q. ev = MdQuote q)"
      "\<forall>sy. ev \<noteq> MdRollover sy" "\<forall>u. ev \<noteq> MdUpdate u" "sig_price g = Fin 0" "sig_order_type g = Market"
      "(\<exists>M op. cs_entry M (rn_strategy (the_runner d)) op = Some g) \<or> (\<exists>q. ev = MdQuote q)"
  | (rollover) sy where "ev = MdRollover sy"
proof (cases ev)
  case (MdBook e)
  let ?r = "on_book_event (env_libm E) (rn_strategy (the_runner d)) e"
  have c: "cs_cfg (snd ?r) = cs_cfg (rn_strategy (the_runner d))" by (rule flow_event_frame(1))
  show thesis
  proof (cases "fst ?r")
    case None
    then show thesis using MdBook c by (intro quiet[of "snd ?r"]) (simp_all add: case_prod_beta)
  next
    case (Some g)
    then have e: "cs_entry (env_libm E) (rn_strategy (the_runner d)) (CsBook e) = Some g" by simp
    note entry_direction[OF e] entry_market[OF e]
    then show thesis using MdBook Some c e by (intro signal[of "snd ?r" g]) (auto simp: case_prod_beta simp del: cs_entry.simps)
  qed
next
  case (MdTrade e)
  let ?r = "on_trade_event (rn_strategy (the_runner d)) e"
  have c: "cs_cfg (snd ?r) = cs_cfg (rn_strategy (the_runner d))" by (rule flow_event_frame(5))
  show thesis
  proof (cases "fst ?r")
    case None
    then show thesis using MdTrade c by (intro quiet[of "snd ?r"]) (simp_all add: case_prod_beta)
  next
    case (Some g)
    then have e: "cs_entry (env_libm E) (rn_strategy (the_runner d)) (CsTrade e) = Some g" by simp
    note entry_direction[OF e] entry_market[OF e]
    then show thesis using MdTrade Some c e by (intro signal[of "snd ?r" g]) (auto simp: case_prod_beta simp del: cs_entry.simps)
  qed
next
  case (MdQuote q)
  let ?r = "on_quote (update_bbo (rn_strategy (the_runner d)) (q_bid q) (q_ask q)) q"
  show thesis
  proof (cases "sig_direction (fst ?r) = DirNone")
    case True
    then show thesis using MdQuote by (intro quiet[of "snd ?r"]) (simp_all add: case_prod_beta)
  next
    case False
    then show thesis using MdQuote by (intro signal[of "snd ?r" "fst ?r"]) (simp_all add: case_prod_beta quote_market)
  qed
next
  case (MdUpdate u)
  then show thesis by (intro quiet[of "on_order_update (rn_strategy (the_runner d)) u"]) simp_all
qed (rule rollover)

lemma dispatch_cfg [simp]:
  "cs_cfg (rn_strategy (the_runner (dispatch E d ev))) = cs_cfg (rn_strategy (the_runner d))"
  by (cases rule: dispatch_cases[of E d ev])
    (simp_all add: on_rollover_def start_subscriptions_def unsubscribe_all_def Let_def)

lemma dispatch_ticker [simp]: "base_ticker (the_runner (dispatch E d ev)) = base_ticker (the_runner d)"
  by (cases rule: dispatch_cases[of E d ev])
    (simp_all add: on_rollover_def start_subscriptions_def unsubscribe_all_def Let_def)

lemma dispatches_cfg [simp]:
  "cs_cfg (rn_strategy (the_runner (foldl (dispatch E) d evs))) = cs_cfg (rn_strategy (the_runner d))"
  by (induction evs arbitrary: d) simp_all

section \<open>Signals and the risk gate\<close>

lemma handle_close:
  "sig_direction g = DirClose \<Longrightarrow> handle_signal E d g = submit_order E d (request_of (env_account E) g)"
  by (simp add: handle_signal_def)

lemma handle_rejected:
  assumes "risk d = Some r" "sig_direction g \<noteq> DirClose" "sig_direction g \<noteq> DirNone"
    and "check (env_margin E) (env_now E) r (request_of (env_account E) g) = Inl e"
    and "err_code e = RiskLimitExceeded \<or> err_code e = DailyLossLimitHit"
  shows "handle_signal E d g = d\<lparr>risk := Some (trip_circuit_breaker r (err_message e))\<rparr>"
  using assms by (simp add: handle_signal_def) blast

lemma handle_tripped:
  assumes "risk d = Some r" "tripped r" "sig_direction g \<noteq> DirClose"
  shows "handle_signal E d g = d"
proof (cases "sig_direction g = DirNone")
  case False
  obtain e where e: "check (env_margin E) (env_now E) r (request_of (env_account E) g) = Inl e"
    "err_code e = RiskLimitExceeded" using gate.tripped_rejects[OF assms(2)] by blast
  have "handle_signal E d g = d\<lparr>risk := Some (trip_circuit_breaker r (err_message e))\<rparr>"
    using handle_rejected[OF assms(1,3) False e(1)] e(2) by simp
  then show ?thesis using gate.trip_idle[OF assms(2)] assms(1) by simp
qed (simp add: handle_signal_def)

definition halted :: "order_request list \<Rightarrow> 'x desk \<Rightarrow> bool" where
  "halted reqs d \<longleftrightarrow> (\<exists>r. risk d = Some r \<and> tripped r) \<and> sent d = reqs"

lemma halted_dispatch:
  assumes "halted reqs d" "\<forall>q. ev \<noteq> MdQuote q"
  shows "halted reqs (dispatch E d ev)"
proof -
  obtain r where r: "risk d = Some r" "tripped r" "sent d = reqs" using assms(1) by (auto simp: halted_def)
  show ?thesis
  proof (cases rule: dispatch_cases[of E d ev])
    case (signal s g)
    then have "handle_signal E (set_strategy d s) g = set_strategy d s"
      using handle_tripped[of "set_strategy d s" r g E] r assms(2) by auto
    then show ?thesis using signal r by (simp add: halted_def)
  qed (use r in \<open>simp_all add: halted_def\<close>)
qed

interpretation halted: guarded_machine "dispatch E" "\<lambda>_ ev. \<forall>q. ev \<noteq> MdQuote q" "halted reqs"
  by unfold_locales (rule halted_dispatch)

section \<open>Closing\<close>

text \<open>A quote that closes does not start a session and leaves the position alone.\<close>

lemma close_quote:
  assumes "sig_direction (fst (on_quote s q)) = DirClose"
  shows "fst (on_quote s q) = close_signal s (sig_reason (fst (on_quote s q)))"
    and "position (snd (on_quote s q)) = position s" and "position s \<noteq> 0"
proof -
  let ?s1 = "handle_session_open s (q_ts q)"
  have sy: "q_symbol q = cs_symbol (cs_cfg s)"
    using assms by (auto simp: on_quote_def no_signal_def split: if_splits)
  have quiet: "\<not> session_opens s (q_ts q)"
  proof
    assume "session_opens s (q_ts q)"
    then have "no_exit ?s1" using handle_session_open_cases[of s "q_ts q"]
      by (auto simp: no_exit_def on_session_open_def)
    then have "fst (on_quote s q) = no_signal"
      by (auto simp: on_quote_def Let_def check_exit_def no_exit_def)
    with assms show False by (simp add: no_signal_def)
  qed
  obtain r where r: "exit_reason s (quote_mid q) = Some r"
    using assms quote_closes(1)[OF sy quiet] by (auto simp: no_signal_def split: option.splits)
  then show "fst (on_quote s q) = close_signal s (sig_reason (fst (on_quote s q)))"
    using quote_closes(1)[OF sy quiet] by (simp add: close_signal_def)
  show "position s \<noteq> 0" using r by (auto simp: exit_reason_def)
  show "position (snd (on_quote s q)) = position s"
    using handle_session_open_quiet[OF quiet] sy by (auto simp: on_quote_state)
qed

section \<open>Draining the queue\<close>

text \<open>An upper bound on the passes a queue needs: an event other than an update may add one.\<close>

fun event_weight :: "md_event \<Rightarrow> nat" where
  "event_weight (MdUpdate u) = 1"
| "event_weight _ = 2"

definition queue_weight :: "md_event spsc_queue \<Rightarrow> nat" where
  "queue_weight q = sum_list (map event_weight (contents q))"

lemma push_weight:
  assumes "wf_queue q"
  shows "wf_queue (snd (push q (MdUpdate u)))"
    and "queue_weight (snd (push q (MdUpdate u))) \<le> Suc (queue_weight q)"
proof -
  show "wf_queue (snd (push q (MdUpdate u)))" using spsc.push_invar[OF assms] .
  show "queue_weight (snd (push q (MdUpdate u))) \<le> Suc (queue_weight q)"
    using spsc.push_ok[OF assms, of "MdUpdate u"] spsc.push_full[OF assms, of "MdUpdate u"] spsc.view_bound[OF assms]
    by (cases "length (contents q) < length (buffer q) - 1") (auto simp: queue_weight_def)
qed

definition one_update :: "'x runner_env \<Rightarrow> bool" where
  "one_update E \<longleftrightarrow> (\<forall>x req. length (fst (snd (env_submit E x req))) \<le> 1)"

lemma order_callback_queue:
  assumes "wf_queue (queue (the_runner d))"
  shows "wf_queue (queue (the_runner (order_callback E d u)))
    \<and> queue_weight (queue (the_runner (order_callback E d u))) \<le> Suc (queue_weight (queue (the_runner d)))"
  using assms push_weight[OF assms, of u] by (auto simp: order_callback_def Let_def)

lemma submit_order_queue:
  assumes "one_update E" "wf_queue (queue (the_runner d))"
  shows "wf_queue (queue (the_runner (submit_order E d req)))
    \<and> queue_weight (queue (the_runner (submit_order E d req))) \<le> Suc (queue_weight (queue (the_runner d)))"
proof -
  obtain r us x where s: "env_submit E (executor d) req = (r, us, x)" by (metis prod_cases3)
  then have "length us \<le> 1" using assms(1) by (metis fst_conv one_update_def snd_conv)
  then consider "us = []" | u where "us = [u]" by (cases us) auto
  then show ?thesis
  proof cases
    case 1
    then show ?thesis using s assms(2) by (simp add: submit_order_def)
  next
    case (2 u)
    then show ?thesis
      using s assms(2) order_callback_queue[of "d\<lparr>executor := x, sent := sent d @ [req]\<rparr>" E u]
      by (simp add: submit_order_def)
  qed
qed

lemma handle_signal_queue:
  assumes "one_update E" "wf_queue (queue (the_runner d))"
  shows "wf_queue (queue (the_runner (handle_signal E d g)))
    \<and> queue_weight (queue (the_runner (handle_signal E d g))) \<le> Suc (queue_weight (queue (the_runner d)))"
  using assms submit_order_queue[OF assms]
  by (auto simp: handle_signal_def Let_def split: option.split sum.split)

lemma dispatch_queue:
  assumes "one_update E" "wf_queue (queue (the_runner d))"
  shows "wf_queue (queue (the_runner (dispatch E d ev)))
    \<and> queue_weight (queue (the_runner (dispatch E d ev))) < queue_weight (queue (the_runner d)) + event_weight ev"
proof -
  have w: "0 < event_weight ev" by (cases ev) simp_all
  show ?thesis
  proof (cases rule: dispatch_cases[of E d ev])
    case quiet
    then show ?thesis using assms(2) w by simp
  next
    case (signal s g)
    then have "event_weight ev = 2" by (cases ev) simp_all
    then show ?thesis using signal(1) handle_signal_queue[OF assms(1), of "set_strategy d s" g] assms(2) by auto
  next
    case rollover
    then show ?thesis using assms(2) by (simp add: on_rollover_def start_subscriptions_def unsubscribe_all_def Let_def)
  qed
qed

lemma drain_queue_some:
  assumes "one_update E"
  shows "wf_queue (queue (the_runner d)) \<Longrightarrow> queue_weight (queue (the_runner d)) < n \<Longrightarrow>
    \<exists>d'. drain_queue n E d = Some d' \<and> contents (queue (the_runner d')) = []"
proof (induction n arbitrary: d)
  case (Suc n)
  let ?q = "queue (the_runner d)"
  show ?case
  proof (cases "contents ?q")
    case Nil
    then show ?thesis using spsc.pop_none[OF Suc.prems(1)] by simp
  next
    case (Cons ev evs)
    from spsc.pop_some[OF Suc.prems(1) this] obtain q' where
      q': "pop ?q = (Some ev, q')" "contents q' = evs" "wf_queue q'" by blast
    let ?d = "d\<lparr>the_runner := (the_runner d)\<lparr>queue := q'\<rparr>\<rparr>"
    note dq = dispatch_queue[OF assms, of ?d ev]
    have "queue_weight q' + event_weight ev = queue_weight ?q" using Cons q'(2) by (simp add: queue_weight_def)
    then have "queue_weight (queue (the_runner (dispatch E ?d ev))) < n"
      using dq q'(3) Suc.prems(2) by simp
    from Suc.IH[OF _ this] dq q' show ?thesis by simp
  qed
qed simp

lemma queue_weight_bound: "wf_queue q \<Longrightarrow> length (buffer q) = kQueueSize \<Longrightarrow> queue_weight q < 2048"
proof -
  assume a: "wf_queue q" "length (buffer q) = kQueueSize"
  have w: "event_weight e \<le> 2" for e by (cases e) simp_all
  have "sum_list (map event_weight evs) \<le> 2 * length evs" for evs
  proof (induction evs)
    case (Cons e evs)
    then show ?case using w[of e] by simp
  qed simp
  then have "queue_weight q \<le> 2 * length (contents q)" unfolding queue_weight_def .
  also have "\<dots> \<le> 2 * 1023" using spsc.view_bound[OF a(1)] a(2) by simp
  finally show ?thesis by simp
qed

section \<open>A worked desk\<close>

text \<open>An executor that accepts every order and reports nothing, and a desk around a strategy.\<close>

definition demo_env :: "unit runner_env" where
  "demo_env = \<lparr>env_libm = step_libm, env_account = ''acc'', env_margin = (\<lambda>_. Inl ''down''), env_now = 0,
     env_bars = (\<lambda>_ _ _ _. Inr []), env_visit = (\<lambda>_. []), env_submit = (\<lambda>x req. (Inr 1, [], x))\<rparr>"

definition demo_desk :: "confluence_strategy \<Rightarrow> risk_manager option \<Rightarrow> unit desk" where
  "demo_desk s r = \<lparr>the_runner = \<lparr>rn_strategy = s, base_ticker = ''Si'', history_days = 20, rn_rollover_days = 5,
      queue = new_queue default_md_event kQueueSize, active_symbol = si_symbol, subs = start_subs si_symbol no_subs\<rparr>,
     risk = r, executor = (), sent = []\<rparr>"

lemma demo_desk_fields [simp]:
  "rn_strategy (the_runner (demo_desk s r)) = s" "risk (demo_desk s r) = r" "sent (demo_desk s r) = []"
  "queue (the_runner (demo_desk s r)) = new_queue default_md_event kQueueSize"
  by (simp_all add: demo_desk_def)

section \<open>Properties\<close>

text \<open>
  C24: closing a short position doubles it. When a quote makes a strategy with a short position
  of \<open>n\<close> lots close, the order sent is a \<^emph>\<open>sell\<close> of \<open>n\<close> lots, and after its fill the
  position is \<open>-2 * n\<close>: every close is sent as a sell.
\<close>

theorem closing_a_short_doubles_it:
  assumes "s = update_bbo (rn_strategy (the_runner d)) (q_bid q) (q_ask q)"
    and "sig_direction (fst (on_quote s q)) = DirClose" and "position s = - n" and "0 < n" and "n < 2 ^ 30"
    and "upd_status u = Filled" and "upd_side u = Sell" and "upd_qty_filled u = n"
  shows "(\<exists>req. sent (dispatch E d (MdQuote q)) = sent d @ [req] \<and> req_side req = Sell \<and> req_quantity req = n)
    \<and> position (on_order_update (rn_strategy (the_runner (dispatch E d (MdQuote q)))) u) = - 2 * n"
proof -
  let ?g = "fst (on_quote s q)" and ?s' = "snd (on_quote s q)"
  note c = close_quote[OF assms(2)]
  have d: "dispatch E d (MdQuote q) = submit_order E (set_strategy d ?s') (request_of (env_account E) ?g)"
    using assms(1,2) by (simp add: handle_close case_prod_beta)
  have qty: "req_quantity (request_of (env_account E) ?g) = n" "req_side (request_of (env_account E) ?g) = Sell"
    unfolding request_of_def Let_def by (subst c(1)) (use assms(2-5) in \<open>simp_all add: close_signal_def wrap32_id\<close>)
  have "wrap32 (- 2 * n) = - 2 * n" using assms(4,5) by (intro wrap32_id) simp_all
  then show ?thesis unfolding d using qty c(2) assms(3,4,6-8) by (simp add: on_order_update_def Let_def)
qed

theorem closing_a_short_doubles_it_witness:
  "position (on_order_update (rn_strategy (the_runner (dispatch demo_env
     (demo_desk (armed\<lparr>position := - 2, entry_price := Fin 100\<rparr>) None) (MdQuote (quote_at 150 600)))))
     (fill_of Sell 1 2 150)) = - 4"
proof -
  let ?base = "armed\<lparr>position := - 2, entry_price := Fin 100\<rparr>"
  let ?q = "quote_at 150 600"
  let ?s = "update_bbo ?base (q_bid ?q) (q_ask ?q)"
  have "quote_mid ?q = Fin 150" by (simp add: quote_mid_def quote_at_def)
  moreover have "\<not> Fin 100 < lit (1/10^9)"
    using lit_nano(2) double_less_le_trans[of "Fin 100" "lit (1/10^9)" "Fin 1"] by auto
  ultimately have r: "exit_reason ?s (quote_mid ?q) = Some ''sl_hit''"
    by (simp add: exit_reason_def pnl_ticks_def default_confluence_config_def update_bbo_def)
  have "\<not> session_opens ?s (q_ts ?q)" by (simp add: session_opens_def update_bbo_def)
  then have "sig_direction (fst (on_quote ?s ?q)) = DirClose"
    using quote_closes(1)[of ?q ?s] r by (simp add: close_signal_def default_confluence_config_def update_bbo_def)
  from closing_a_short_doubles_it[OF _ this, where d = "demo_desk ?base None" and n = 2
      and u = "fill_of Sell 1 2 150" and E = demo_env]
  show ?thesis by (simp add: update_bbo_def fill_of_def del: dispatch.simps)
qed

text \<open>
  Reaching the position limit halts the bot for good. If the account shows as many open
  positions as allowed, then an entry signal of any kind sends nothing and trips the circuit
  breaker, although no loss limit is hit; the breaker never resets.
\<close>

lemma position_limit_trips_breaker:
  assumes "risk d = Some r" and "double_of_int (max_positions (risk_cfg r)) \<le> open_positions (account r)"
    and "sig_direction g = DirBuy \<or> sig_direction g = DirSell"
  shows "sent (handle_signal E d g) = sent d
    \<and> (\<exists>r'. risk (handle_signal E d g) = Some r' \<and> tripped r')"
proof -
  obtain e where e: "check (env_margin E) (env_now E) r (request_of (env_account E) g) = Inl e"
    "err_code e = RiskLimitExceeded \<or> err_code e = DailyLossLimitHit"
    using position_limit_rejects[OF assms(2)] by blast
  have "handle_signal E d g = d\<lparr>risk := Some (trip_circuit_breaker r (err_message e))\<rparr>"
    using handle_rejected[OF assms(1) _ _ e] assms(3) by auto
  then show ?thesis using gate.trip_trips by simp
qed

text \<open>
  A tripped breaker stops every entry. With the breaker tripped, no sequence of book,
  trade, order and rollover events makes the runner send an order; only a quote that closes a
  position can.
\<close>

lemma tripped_runner_sends_no_entries:
  assumes "risk d = Some r" and "tripped r" and "\<forall>ev \<in> set evs. \<forall>q. ev \<noteq> MdQuote q"
  shows "sent (foldl (dispatch E) d evs) = sent d"
proof -
  have "guarded (dispatch E) (\<lambda>_ ev. \<forall>q. ev \<noteq> MdQuote q) t evs" for t
    using assms(3) by (induction evs arbitrary: t) auto
  moreover have "halted (sent d) d" using assms(1,2) by (simp add: halted_def)
  ultimately have "halted (sent d) (foldl (dispatch E) d evs)" using halted.guarded_run by blast
  then show ?thesis by (simp add: halted_def)
qed

text \<open>
  C25: a rollover leaves the strategy on the old contract. After the runner has rolled over to a
  new symbol that is its active symbol, but, whatever events follow, the strategy ignores every quote
  and every bar of the new symbol, and every order it asks for names the old one.
\<close>

theorem rollover_keeps_old_contract:
  assumes "sy \<noteq> cs_symbol (cs_cfg (rn_strategy (the_runner d)))"
    and "d' = foldl (dispatch E) (dispatch E d (MdRollover sy)) evs"
    and "s = rn_strategy (the_runner d')" and "q_symbol q = sy" and "bar_symbol b = sy"
  shows "on_quote s q = (no_signal, s) \<and> on_bar s b = (no_signal, s)
    \<and> active_symbol (the_runner (dispatch E d (MdRollover sy))) = sy
    \<and> (\<forall>op g. cs_entry M s op = Some g \<longrightarrow> sig_symbol g = cs_symbol (cs_cfg (rn_strategy (the_runner d))))"
proof -
  have c: "cs_cfg s = cs_cfg (rn_strategy (the_runner d))"
    unfolding assms(2,3) dispatches_cfg dispatch_cfg ..
  have "sig_symbol g = cs_symbol (cs_cfg s)" if "cs_entry M s op = Some g" for op g
    using that by (rule cs_entry_try) (auto simp: try_enter_iff entry_order_def)
  moreover have "active_symbol (the_runner (dispatch E d (MdRollover sy))) = sy"
    by (simp add: on_rollover_def start_subscriptions_def Let_def)
  ultimately show ?thesis using assms(1,4,5) c by (simp add: on_quote_def on_bar_def)
qed

theorem rollover_keeps_old_contract_witness:
  "let sy = \<lparr>security_code = ''SiM6'', security_board = ''RTSX''\<rparr>;
       s = rn_strategy (the_runner (dispatch demo_env (demo_desk armed None) (MdRollover sy)))
   in on_quote s ((quote_at 100 600)\<lparr>q_symbol := sy\<rparr>) = (no_signal, s)"
  using rollover_keeps_old_contract[of "\<lparr>security_code = ''SiM6'', security_board = ''RTSX''\<rparr>" "demo_desk armed None"
      "dispatch demo_env (demo_desk armed None) (MdRollover \<lparr>security_code = ''SiM6'', security_board = ''RTSX''\<rparr>)"
      demo_env "[]" _ "(quote_at 100 600)\<lparr>q_symbol := \<lparr>security_code = ''SiM6'', security_board = ''RTSX''\<rparr>\<rparr>"
      "(sample_bar 1 1 1 1)\<lparr>bar_symbol := \<lparr>security_code = ''SiM6'', security_board = ''RTSX''\<rparr>\<rparr>"]
  by (simp add: Let_def si_symbol_def default_confluence_config_def del: dispatch.simps)



end
