(* ===== verification/Runner_Threads.thy ===== *)
theory Runner_Threads
  imports Strategy_Runner
begin

text \<open>
  The threads of a \<open>StrategyRunner\<close> (\<open>src/strategy/strategy_runner.hpp\<close>) at work: which
  subscriptions it holds over its life, that a due rollover is carried out, and that for an executor
  that reports nothing back the times at which the strategy thread polls its queue do not matter.
\<close>

section \<open>Destruction\<close>

text \<open>
  \<open>~StrategyRunner\<close>: the flag stops both threads, which are joined (the strategy thread drains its
  queue once more); then the members are destroyed, the last declared first.
\<close>

definition destroy_runner :: "runner \<Rightarrow> sub_thread list" where
  "destroy_runner rn =
     (let s = subs rn;
          ts1 = release (d1_bar_sub s) (sub_threads s);
          ts2 = release (m1_bar_sub s) ts1;
          ts3 = release (quote_sub s) ts2;
          ts4 = release (trade_sub s) ts3
      in release (book_sub s) ts4)"

text \<open>Market data arriving while the strategy thread sleeps.\<close>

definition arrivals :: "md_event list \<Rightarrow> 'x desk \<Rightarrow> 'x desk" where
  "arrivals evs d = d\<lparr>the_runner := foldl md_callback (the_runner d) evs\<rparr>"

section \<open>Subscriptions\<close>

definition topics :: "symbol \<Rightarrow> (sub_kind \<times> symbol) list" where
  "topics sy = [(SubBook, sy), (SubTrades, sy), (SubQuotes, sy), (SubBars ''M1'', sy), (SubBars ''D1'', sy)]"

definition handles :: "runner_subs \<Rightarrow> sub_handle list" where
  "handles s = [book_sub s, trade_sub s, quote_sub s, m1_bar_sub s, d1_bar_sub s]"

text \<open>The five handles own five threads on the symbol, and no other thread of the runner is live.\<close>

definition subscribed_to :: "symbol \<Rightarrow> runner_subs \<Rightarrow> bool" where
  "subscribed_to sy s \<longleftrightarrow>
     (\<exists>hs. handles s = map Some hs \<and> distinct hs \<and> live (sub_threads s) = map_of (zip hs (topics sy)))"

lemma resubscribe_None: "resubscribe k None ts = (let (i, ts1) = subscribe k ts in (Some i, ts1))"
  by (simp add: resubscribe_def Let_def case_prod_beta)

lemma start_subs_fresh:
  assumes "handles s = [None, None, None, None, None]" "live (sub_threads s) = Map.empty"
  shows "subscribed_to sy (start_subs sy s)"
proof -
  obtain hs ts where o: "open_all subscribe (topics sy) (sub_threads s) = (hs, ts)" by fastforce
  then have "start_subs sy s = (case map Some hs of [b, t, q, m1, d1] \<Rightarrow>
      \<lparr>book_sub = b, trade_sub = t, quote_sub = q, m1_bar_sub = m1, d1_bar_sub = d1, sub_threads = ts\<rparr>)"
    using assms(1) by (auto simp: start_subs_def topics_def handles_def resubscribe_None Let_def split: prod.splits)
  moreover have h: "length hs = 5" "distinct hs" "live ts = map_of (zip hs (topics sy))"
    using md_subs.open_all_alive[OF o] assms(2) by (simp_all add: topics_def)
  moreover from h(1) obtain b t q m1 d1 where "hs = [b, t, q, m1, d1]"
    by (auto simp: length_Suc_conv eval_nat_numeral)
  ultimately show ?thesis unfolding subscribed_to_def by (intro exI[of _ hs]) (simp add: handles_def)
qed

lemma released_all:
  assumes "subscribed_to sy s"
  shows "live (sub_threads (stop_subs s)) = Map.empty"
    and "live (release (book_sub s) (release (trade_sub s) (release (quote_sub s)
           (release (m1_bar_sub s) (release (d1_bar_sub s) (sub_threads s)))))) = Map.empty"
proof -
  obtain b t q m1 d1 where s: "handles s = map Some [b, t, q, m1, d1]"
    and l: "live (sub_threads s) = map_of (zip [b, t, q, m1, d1] (topics sy))"
    using assms by (auto simp: subscribed_to_def handles_def)
  show "live (sub_threads (stop_subs s)) = Map.empty"
    and "live (release (book_sub s) (release (trade_sub s) (release (quote_sub s)
           (release (m1_bar_sub s) (release (d1_bar_sub s) (sub_threads s)))))) = Map.empty"
    using s l by (auto simp: handles_def stop_subs_def topics_def md_subs.close_alive fun_eq_iff Let_def)
qed

lemma restart_subs: "subscribed_to sy s \<Longrightarrow> subscribed_to sy' (start_subs sy' (stop_subs s))"
  by (rule start_subs_fresh) (simp_all add: released_all handles_def, simp_all add: stop_subs_def Let_def)

lemma destroyed_subs: "subscribed_to sy (subs rn) \<Longrightarrow> live (destroy_runner rn) = Map.empty"
  using released_all(2) by (simp add: destroy_runner_def Let_def)

text \<open>A runner holds exactly the subscriptions of its active symbol.\<close>

definition subs_ok :: "runner \<Rightarrow> bool" where
  "subs_ok rn \<longleftrightarrow> subscribed_to (active_symbol rn) (subs rn)"

lemma new_runner_subs: "subs_ok (new_runner E cfg ticker hist rollover)"
  by (simp add: subs_ok_def new_runner_def start_subscriptions_def Let_def)
    (rule start_subs_fresh, simp_all add: no_subs_def handles_def live_def fun_eq_iff)

lemma dispatch_subs: "subs_ok (the_runner d) \<Longrightarrow> subs_ok (the_runner (dispatch E d ev))"
  by (cases rule: dispatch_cases[of E d ev])
    (simp_all add: subs_ok_def on_rollover_def start_subscriptions_def unsubscribe_all_def restart_subs Let_def)

section \<open>Queues\<close>

text \<open>A queue of the runner's size in a legal state.\<close>

definition queue_ok :: "md_event spsc_queue \<Rightarrow> bool" where
  "queue_ok q \<longleftrightarrow> wf_queue q \<and> length (buffer q) = kQueueSize"

lemma queue_ok_new: "queue_ok (new_queue default_md_event kQueueSize)"
  using wf_new_queue[of 10 default_md_event] by (simp add: queue_ok_def new_queue_def)

lemma queue_ok_bound: "queue_ok q \<Longrightarrow> length (contents q) < kQueueSize"
  using spsc.view_bound[of q] by (simp add: queue_ok_def)

lemma push_cases:
  assumes "queue_ok q"
  shows "queue_ok (snd (push q ev))"
    and "contents (snd (push q ev)) = (if length (contents q) < kQueueSize - 1 then contents q @ [ev] else contents q)"
proof -
  have wf: "wf_queue q" and len: "length (buffer q) - 1 = kQueueSize - 1" "0 < length (buffer q)"
    using assms by (simp_all add: queue_ok_def)
  have "queue_ok (snd (push q ev)) \<and>
    contents (snd (push q ev)) = (if length (contents q) < kQueueSize - 1 then contents q @ [ev] else contents q)"
  proof (cases "length (contents q) < length (buffer q) - 1")
    case True
    from spsc.push_ok[OF wf this, of ev] obtain q' where q': "push q ev = (True, q')"
      "contents q' = contents q @ [ev]" "length (buffer q') - 1 = length (buffer q) - 1" "wf_queue q'" by blast
    moreover have "length (buffer q') = kQueueSize" using q'(3) len by simp
    ultimately show ?thesis using True len by (simp add: queue_ok_def)
  next
    case False
    then have "push q ev = (False, q)" using spsc.view_bound[OF wf] by (intro spsc.push_full[OF wf]) simp
    then show ?thesis using False len assms by simp
  qed
  then show "queue_ok (snd (push q ev))"
    and "contents (snd (push q ev)) = (if length (contents q) < kQueueSize - 1 then contents q @ [ev] else contents q)"
    by blast+
qed

lemma pop_cases:
  assumes "queue_ok q"
  obtains (empty) "contents q = []" "pop q = (None, q)"
  | (event) ev evs q' where "contents q = ev # evs" "pop q = (Some ev, q')" "contents q' = evs" "queue_ok q'"
proof (cases "contents q")
  case Nil
  then show thesis using empty spsc.pop_none assms by (auto simp: queue_ok_def)
next
  case (Cons ev evs)
  have wf: "wf_queue q" and len: "length (buffer q) = kQueueSize" using assms by (simp_all add: queue_ok_def)
  from spsc.pop_some[OF wf Cons] obtain q' where q': "pop q = (Some ev, q')" "contents q' = evs"
    "length (buffer q') - 1 = length (buffer q) - 1" "wf_queue q'" by blast
  moreover have "length (buffer q') = kQueueSize" using q'(3) len by simp
  ultimately show thesis using event[OF Cons] by (simp add: queue_ok_def)
qed

abbreviation with_queue :: "md_event spsc_queue \<Rightarrow> 'x desk \<Rightarrow> 'x desk" where
  "with_queue q d \<equiv> d\<lparr>the_runner := (the_runner d)\<lparr>queue := q\<rparr>\<rparr>"

lemma arrivals_fit:
  assumes "queue_ok (queue (the_runner d))" "length (contents (queue (the_runner d))) + length evs < kQueueSize"
  shows "\<exists>q. arrivals evs d = with_queue q d \<and> queue_ok q \<and> contents q = contents (queue (the_runner d)) @ evs"
  using assms
proof (induction evs arbitrary: d)
  case (Cons ev evs)
  let ?q = "queue (the_runner d)" and ?d = "d\<lparr>the_runner := md_callback (the_runner d) ev\<rparr>"
  have q: "queue (the_runner ?d) = snd (push ?q ev)" by (simp add: md_callback_def)
  have c: "queue_ok (snd (push ?q ev))" "contents (snd (push ?q ev)) = contents ?q @ [ev]"
    using push_cases[OF Cons.prems(1), of ev] Cons.prems(2) by simp_all
  have "length (contents (snd (push ?q ev))) + length evs < kQueueSize" using c(2) Cons.prems(2) by simp
  from Cons.IH[of ?d, unfolded q, OF c(1) this] obtain q where
    "arrivals evs ?d = with_queue q ?d" "queue_ok q" "contents q = contents ?q @ ev # evs" using c(2) by auto
  then show ?case by (intro exI[of _ q]) (simp add: arrivals_def md_callback_def)
qed (auto simp: arrivals_def intro!: exI[of _ "queue (the_runner d)" for d])

section \<open>The polling schedule\<close>

text \<open>An executor that, from the states in \<open>X\<close>, reports no update while an order is submitted.\<close>

definition silent :: "'x runner_env \<Rightarrow> ('x \<Rightarrow> bool) \<Rightarrow> bool" where
  "silent E X \<longleftrightarrow> (\<forall>x req. X x \<longrightarrow> fst (snd (env_submit E x req)) = [] \<and> X (snd (snd (env_submit E x req))))"

lemma silent_executor: "silent E X \<Longrightarrow> X x \<Longrightarrow> X (snd (snd (env_submit E x req)))"
  by (simp add: silent_def)

lemma silent_submit:
  assumes "silent E X" "X (executor d)"
  shows "submit_order E d req = d\<lparr>executor := snd (snd (env_submit E (executor d) req)), sent := sent d @ [req]\<rparr>"
    and "X (executor (submit_order E d req))"
proof -
  show "submit_order E d req = d\<lparr>executor := snd (snd (env_submit E (executor d) req)), sent := sent d @ [req]\<rparr>"
    using assms by (auto simp: submit_order_def silent_def case_prod_beta)
  then show "X (executor (submit_order E d req))" using assms by (simp add: silent_def)
qed

lemma silent_signal:
  assumes "silent E X" "X (executor d)"
  shows "handle_signal E (with_queue q d) g = with_queue q (handle_signal E d g)"
    and "X (executor (handle_signal E d g))" and "queue (the_runner (handle_signal E d g)) = queue (the_runner d)"
  using assms silent_executor[OF assms] by (simp_all add: handle_signal_def silent_submit[OF assms(1)] Let_def split: option.split sum.split)

lemma on_rollover_queue:
  "on_rollover E (rn\<lparr>queue := q\<rparr>) sy = (on_rollover E rn sy)\<lparr>queue := q\<rparr>"
  "queue (on_rollover E rn sy) = queue rn"
  by (simp_all add: on_rollover_def load_history_def start_subscriptions_def unsubscribe_all_def Let_def split: sum.split)

lemma silent_dispatch:
  assumes "silent E X" "X (executor d)"
  shows "dispatch E (with_queue q d) ev = with_queue q (dispatch E d ev)"
    and "X (executor (dispatch E d ev))" and "queue (the_runner (dispatch E d ev)) = queue (the_runner d)"
proof -
  have sw: "d\<lparr>the_runner := (the_runner d)\<lparr>queue := q, rn_strategy := s\<rparr>\<rparr> = with_queue q (set_strategy d s)" for s
    by simp
  note h = silent_signal[OF assms(1), of "set_strategy d s" for s]
  have "dispatch E (with_queue q d) ev = with_queue q (dispatch E d ev) \<and> X (executor (dispatch E d ev))
    \<and> queue (the_runner (dispatch E d ev)) = queue (the_runner d)"
  proof (cases ev)
    case (MdBook e)
    then show ?thesis using h assms(2)
      by (cases "on_book_event (env_libm E) (rn_strategy (the_runner d)) e") (auto simp: sw split: option.split)
  next
    case (MdTrade e)
    then show ?thesis using h assms(2)
      by (cases "on_trade_event (rn_strategy (the_runner d)) e") (auto simp: sw split: option.split)
  next
    case (MdQuote qt)
    then show ?thesis using h assms(2)
      by (cases "on_quote (update_bbo (rn_strategy (the_runner d)) (q_bid qt) (q_ask qt)) qt") (auto simp: sw)
  next
    case (MdRollover sy)
    then show ?thesis using assms(2) by (simp add: on_rollover_queue)
  qed (use assms(2) in simp_all)
  then show "dispatch E (with_queue q d) ev = with_queue q (dispatch E d ev)"
    and "X (executor (dispatch E d ev))" and "queue (the_runner (dispatch E d ev)) = queue (the_runner d)" by blast+
qed

lemma silent_run:
  assumes "silent E X" "X (executor d)"
  shows "foldl (dispatch E) (with_queue q d) evs = with_queue q (foldl (dispatch E) d evs)"
    and "X (executor (foldl (dispatch E) d evs))"
    and "queue (the_runner (foldl (dispatch E) d evs)) = queue (the_runner d)"
proof -
  have "foldl (dispatch E) (with_queue q d) evs = with_queue q (foldl (dispatch E) d evs)
    \<and> X (executor (foldl (dispatch E) d evs)) \<and> queue (the_runner (foldl (dispatch E) d evs)) = queue (the_runner d)"
    using assms(2)
  proof (induction evs arbitrary: d)
    case (Cons ev evs)
    note sd = silent_dispatch[OF assms(1) Cons.prems]
    from Cons.IH[OF sd(2), of ev] show ?case using sd by simp
  qed simp
  then show "foldl (dispatch E) (with_queue q d) evs = with_queue q (foldl (dispatch E) d evs)"
    and "X (executor (foldl (dispatch E) d evs))"
    and "queue (the_runner (foldl (dispatch E) d evs)) = queue (the_runner d)" by blast+
qed

lemma silent_drain:
  assumes "silent E X"
  shows "X (executor d) \<Longrightarrow> queue_ok (queue (the_runner d)) \<Longrightarrow> length (contents (queue (the_runner d))) < n \<Longrightarrow>
    \<exists>q. drain_queue n E d = Some (with_queue q (foldl (dispatch E) d (contents (queue (the_runner d)))))
      \<and> queue_ok q \<and> contents q = []"
proof (induction n arbitrary: d)
  case (Suc n)
  from Suc.prems(2) show ?case
  proof (cases rule: pop_cases)
    case empty
    then show ?thesis using Suc.prems(2) by (intro exI[of _ "queue (the_runner d)"]) simp
  next
    case (event ev evs q')
    let ?d = "dispatch E (with_queue q' d) ev"
    note sd = silent_dispatch(2,3)[OF assms, of "with_queue q' d" ev]
    have c: "queue (the_runner ?d) = q'" "X (executor ?d)" using sd Suc.prems(1) by simp_all
    have "length (contents q') < n" using Suc.prems(3) event by simp
    from Suc.IH[of ?d, unfolded c(1), OF c(2) event(4) this] obtain q where
      q: "drain_queue n E ?d = Some (with_queue q (foldl (dispatch E) ?d evs))" "queue_ok q" "contents q = []"
      using event(3) by auto
    have "with_queue q (foldl (dispatch E) ?d evs) = with_queue q (foldl (dispatch E) d (ev # evs))"
      using silent_run(1)[OF assms, of "dispatch E d ev" q' evs] silent_dispatch(1,2)[OF assms Suc.prems(1)] by simp
    then show ?thesis using q event by (intro exI[of _ q]) simp
  qed
qed simp

lemma silent_thread:
  assumes "silent E X"
  shows "X (executor d) \<Longrightarrow> queue_ok (queue (the_runner d)) \<Longrightarrow>
    list_all (\<lambda>evs. length evs < kQueueSize) batches \<Longrightarrow>
    \<exists>q. strategy_thread 2048 (\<lambda>k. i + length batches \<le> k) i E d (map arrivals (batches @ [[]]))
        = Some (True, with_queue q (foldl (dispatch E) d (contents (queue (the_runner d)) @ concat batches)))
      \<and> contents q = []"
proof (induction batches arbitrary: i d)
  case Nil
  have "length (contents (queue (the_runner d))) < 2048" using queue_ok_bound[OF Nil.prems(2)] by simp
  from silent_drain[OF assms Nil.prems(1,2) this] show ?case by auto
next
  case (Cons evs batches)
  let ?evs0 = "contents (queue (the_runner d))"
  have "length ?evs0 < 2048" using queue_ok_bound[OF Cons.prems(2)] by simp
  from silent_drain[OF assms Cons.prems(1,2) this] obtain q1 where
    q1: "drain_queue 2048 E d = Some (with_queue q1 (foldl (dispatch E) d ?evs0))" "queue_ok q1" "contents q1 = []" by blast
  let ?d1 = "with_queue q1 (foldl (dispatch E) d ?evs0)"
  from arrivals_fit[of ?d1 evs] obtain q2 where
    q2: "arrivals evs ?d1 = with_queue q2 (foldl (dispatch E) d ?evs0)" "queue_ok q2" "contents q2 = evs"
    using q1 Cons.prems(3) by auto
  let ?d2 = "with_queue q2 (foldl (dispatch E) d ?evs0)"
  have x: "X (executor ?d2)" using silent_run(2)[OF assms Cons.prems(1), of ?evs0] by simp
  from Cons.IH[of ?d2 "Suc i"] obtain q where
    "strategy_thread 2048 (\<lambda>k. Suc i + length batches \<le> k) (Suc i) E ?d2 (map arrivals (batches @ [[]]))
       = Some (True, with_queue q (foldl (dispatch E) ?d2 (evs @ concat batches)))" "contents q = []"
    using x q2(2,3) Cons.prems(3) by auto
  moreover have "with_queue q (foldl (dispatch E) ?d2 (evs @ concat batches))
      = with_queue q (foldl (dispatch E) d (?evs0 @ evs @ concat batches))" for q
    using silent_run(1)[OF assms silent_run(2)[OF assms Cons.prems(1), of ?evs0], of q2 "evs @ concat batches"] by simp
  ultimately show ?case using q1(1) q2(1) by (intro exI[of _ q]) (simp add: add_Suc_right)
qed

section \<open>What a drain does to the active symbol\<close>

text \<open>While an event is handled the queue only grows, by updates.\<close>

definition grown :: "md_event spsc_queue \<Rightarrow> md_event spsc_queue \<Rightarrow> bool" where
  "grown q q' \<longleftrightarrow> queue_ok q' \<and> (\<exists>us. contents q' = contents q @ map MdUpdate us)"

lemma grown_refl: "queue_ok q \<Longrightarrow> grown q q"
  by (auto simp: grown_def intro: exI[of _ "[]"])

lemma grown_trans: "grown q q' \<Longrightarrow> grown q' q'' \<Longrightarrow> grown q q''"
  by (auto simp: grown_def simp flip: map_append)

lemma order_callback_grown:
  assumes "queue_ok (queue (the_runner d))"
  shows "grown (queue (the_runner d)) (queue (the_runner (order_callback E d u)))"
proof -
  have "grown (queue (the_runner d)) (snd (push (queue (the_runner d)) (MdUpdate u)))"
    using push_cases[OF assms, of "MdUpdate u"] by (auto simp: grown_def intro: exI[of _ "[u]"] exI[of _ "[]"])
  then show ?thesis using grown_refl[OF assms] by (simp add: order_callback_def Let_def)
qed

lemma order_callbacks_grown:
  "queue_ok (queue (the_runner d)) \<Longrightarrow> grown (queue (the_runner d)) (queue (the_runner (foldl (order_callback E) d us)))"
proof (induction us arbitrary: d)
  case (Cons u us)
  have g: "grown (queue (the_runner d)) (queue (the_runner (order_callback E d u)))"
    by (rule order_callback_grown[OF Cons.prems])
  then show ?case using Cons.IH[of "order_callback E d u"] grown_trans by (auto simp: grown_def)
qed (simp add: grown_refl)

lemma handle_signal_grown:
  assumes "queue_ok (queue (the_runner d))"
  shows "grown (queue (the_runner d)) (queue (the_runner (handle_signal E d g)))"
proof -
  have "grown (queue (the_runner d)) (queue (the_runner (submit_order E d req)))" for req
    using order_callbacks_grown[of "d\<lparr>executor := x, sent := sent d @ [req]\<rparr>" E for x] assms
    by (simp add: submit_order_def split: prod.split)
  then show ?thesis using grown_refl[OF assms] by (simp add: handle_signal_def Let_def split: option.split sum.split)
qed

fun rolled :: "symbol \<Rightarrow> md_event \<Rightarrow> symbol" where
  "rolled sy (MdRollover sy') = sy'"
| "rolled sy _ = sy"

lemma rolled_other: "\<forall>sy'. ev \<noteq> MdRollover sy' \<Longrightarrow> rolled sy ev = sy"
  by (cases ev) simp_all

lemma rolled_updates [simp]: "foldl rolled sy (map MdUpdate us) = sy"
  by (induction us) simp_all

lemma dispatch_grown:
  assumes "queue_ok (queue (the_runner d))"
  shows "grown (queue (the_runner d)) (queue (the_runner (dispatch E d ev)))"
    and "active_symbol (the_runner (dispatch E d ev)) = rolled (active_symbol (the_runner d)) ev"
proof -
  have "grown (queue (the_runner d)) (queue (the_runner (dispatch E d ev)))
    \<and> active_symbol (the_runner (dispatch E d ev)) = rolled (active_symbol (the_runner d)) ev"
  proof (cases rule: dispatch_cases[of E d ev])
    case quiet
    then show ?thesis using grown_refl[OF assms] by (simp add: rolled_other)
  next
    case (signal s g)
    then show ?thesis using handle_signal_grown[of "set_strategy d s"] assms by (simp add: rolled_other)
  next
    case (rollover sy)
    then show ?thesis using grown_refl[OF assms]
      by (simp add: on_rollover_queue) (simp add: on_rollover_def start_subscriptions_def unsubscribe_all_def Let_def)
  qed
  then show "grown (queue (the_runner d)) (queue (the_runner (dispatch E d ev)))"
    and "active_symbol (the_runner (dispatch E d ev)) = rolled (active_symbol (the_runner d)) ev" by blast+
qed

lemma drain_active:
  "drain_queue n E d = Some d' \<Longrightarrow> queue_ok (queue (the_runner d)) \<Longrightarrow> subs_ok (the_runner d) \<Longrightarrow>
   active_symbol (the_runner d') = foldl rolled (active_symbol (the_runner d)) (contents (queue (the_runner d)))
   \<and> queue_ok (queue (the_runner d')) \<and> subs_ok (the_runner d')"
proof (induction n arbitrary: d)
  case (Suc n)
  from Suc.prems(2) show ?case
  proof (cases rule: pop_cases)
    case empty
    then show ?thesis using Suc.prems by auto
  next
    case (event ev evs q')
    let ?d = "with_queue q' d"
    note g = dispatch_grown[of ?d E ev]
    have s: "subs_ok (the_runner (dispatch E ?d ev))"
      by (rule dispatch_subs) (use Suc.prems(3) in \<open>simp add: subs_ok_def\<close>)
    obtain us where us: "contents (queue (the_runner (dispatch E ?d ev))) = evs @ map MdUpdate us"
      "queue_ok (queue (the_runner (dispatch E ?d ev)))" using g(1) event by (auto simp: grown_def)
    from Suc.IH[of "dispatch E ?d ev", OF _ us(2) s] Suc.prems(1) event us(1) g(2)
    show ?thesis by simp
  qed
qed simp

lemma rolled_member:
  "(\<forall>sy'. MdRollover sy' \<notin> set evs) \<and> foldl rolled sy evs = sy \<or> MdRollover (foldl rolled sy evs) \<in> set evs"
proof (induction evs rule: rev_induct)
  case (snoc ev evs)
  show ?case
  proof (cases "\<exists>sy'. ev = MdRollover sy'")
    case False
    then have "foldl rolled sy (evs @ [ev]) = foldl rolled sy evs" by (simp add: rolled_other)
    with snoc False show ?thesis by auto
  qed auto
qed simp

section \<open>Properties\<close>





end
