(* ===== verification/Backoff.thy ===== *)
theory Backoff
  imports Doubles
begin

text \<open>
  \<open>src/core/backoff.hpp\<close> and \<open>src/core/maintenance.hpp\<close>: the waits between reconnects.

  A thread that waits reads a stop flag that another thread sets, and the clock. The values its
  loads see are arguments: \<open>stops i\<close> is what load number \<open>i\<close> of the flag returns and
  \<open>clock k\<close> what reading number \<open>k\<close> of the clock returns, and an operation returns the number
  of its next load and reading. A wait that never ends is \<open>None\<close>.

  \<open>std::uniform_real_distribution\<close> is the argument \<open>draw\<close>; \<open>uniform\<close> says what the standard
  promises of it. Shown: the range of the delays, that every wait ends and what it returns, and
  that the maintenance window is left after at most 150 polls.
\<close>

section \<open>Exponential backoff\<close>

record backoff_config =
  bo_base :: int
  bo_cap :: int
  bo_tick :: int
  jitter_pct :: double

definition default_backoff_config :: backoff_config where
  "default_backoff_config = \<lparr>bo_base = 500, bo_cap = 30000, bo_tick = 50, jitter_pct = lit (1/4)\<rparr>"

record backoff =
  bo_cfg :: backoff_config
  attempt :: int

definition new_backoff :: "backoff_config \<Rightarrow> backoff" where
  "new_backoff cfg = \<lparr>bo_cfg = cfg, attempt = 0\<rparr>"

type_synonym distribution = "double \<Rightarrow> double \<Rightarrow> double"

definition uniform :: "distribution \<Rightarrow> bool" where
  "uniform draw \<longleftrightarrow> (\<forall>a b. a < b \<longrightarrow> a \<le> draw a b \<and> draw a b < b)"

text \<open>\<open>base * 2^attempt\<close> up to \<open>2^6\<close> and at most the cap, in milliseconds.\<close>

definition capped_delay :: "backoff \<Rightarrow> double" where
  "capped_delay b =
     (let raw = double_of_int (bo_base (bo_cfg b)) * double_of_int (push_bit (nat (min (attempt b) 6)) 1)
      in std_min raw (double_of_int (bo_cap (bo_cfg b))))"

definition compute_delay :: "distribution \<Rightarrow> backoff \<Rightarrow> int" where
  "compute_delay draw b =
     (let capped = capped_delay b; j = jitter_pct (bo_cfg b)
      in cast_int 64 (draw (capped * (lit 1 - j)) (capped * (lit 1 + j))))"

text \<open>The loop of \<open>wait\<close>: one load of the flag and one sleep of at most a tick per pass.\<close>

partial_function (option) wait_loop ::
  "(nat \<Rightarrow> bool) \<Rightarrow> int \<Rightarrow> nat \<Rightarrow> int \<Rightarrow> (bool \<times> nat) option" where
  "wait_loop stops tick i remaining =
     (if remaining \<le> 0 then Some (True, i)
      else if stops i then Some (False, Suc i)
      else wait_loop stops tick (Suc i) (remaining - min remaining tick))"

definition backoff_wait ::
  "(nat \<Rightarrow> bool) \<Rightarrow> distribution \<Rightarrow> nat \<Rightarrow> backoff \<Rightarrow> (bool \<times> nat \<times> backoff) option" where
  "backoff_wait stops draw i b =
     (case wait_loop stops (bo_tick (bo_cfg b)) i (compute_delay draw b) of
        None \<Rightarrow> None
      | Some (go, j) \<Rightarrow> Some (go, j, if go then b\<lparr>attempt := wrap32 (attempt b + 1)\<rparr> else b))"

definition next_delay :: "distribution \<Rightarrow> backoff \<Rightarrow> int \<times> backoff" where
  "next_delay draw b = (compute_delay draw b, b\<lparr>attempt := wrap32 (attempt b + 1)\<rparr>)"

definition backoff_reset :: "backoff \<Rightarrow> backoff" where
  "backoff_reset b = b\<lparr>attempt := 0\<rparr>"

section \<open>The maintenance window\<close>

record maintenance_config =
  start_utc_min :: int
  end_utc_min :: int
  maint_poll_interval :: int

definition default_maintenance_config :: maintenance_config where
  "default_maintenance_config = \<lparr>start_utc_min = 120, end_utc_min = 195, maint_poll_interval = 30\<rparr>"

definition utc_min_at :: "time_point \<Rightarrow> int" where
  "utc_min_at now = wrap32 (utc_minute (to_time_t now))"

definition in_window :: "maintenance_config \<Rightarrow> int \<Rightarrow> bool" where
  "in_window cfg utc_min \<longleftrightarrow> start_utc_min cfg \<le> utc_min \<and> utc_min < end_utc_min cfg"

definition window_active :: "maintenance_config \<Rightarrow> time_point \<Rightarrow> bool" where
  "window_active cfg now = in_window cfg (utc_min_at now)"

partial_function (option) maint_loop ::
  "maintenance_config \<Rightarrow> (nat \<Rightarrow> bool) \<Rightarrow> (nat \<Rightarrow> time_point) \<Rightarrow> nat \<Rightarrow> nat \<Rightarrow> (bool \<times> nat \<times> nat) option" where
  "maint_loop cfg stops clock i k =
     (if stops i then Some (False, Suc i, k)
      else if \<not> window_active cfg (clock k) then Some (True, Suc i, Suc k)
      else maint_loop cfg stops clock (Suc i) (Suc k))"

definition wait_if_active ::
  "maintenance_config \<Rightarrow> (nat \<Rightarrow> bool) \<Rightarrow> (nat \<Rightarrow> time_point) \<Rightarrow> nat \<Rightarrow> nat \<Rightarrow> (bool \<times> nat \<times> nat) option" where
  "wait_if_active cfg stops clock i k =
     (if \<not> window_active cfg (clock k) then Some (True, i, Suc k)
      else maint_loop cfg stops clock i (Suc k))"

section \<open>The wait ends\<close>

text \<open>The number of passes a wait needs, and the first of them whose load sees the flag set.\<close>

definition passes :: "int \<Rightarrow> int \<Rightarrow> nat" where
  "passes tick remaining = nat ((remaining + tick - 1) div tick)"

fun first_stop :: "(nat \<Rightarrow> bool) \<Rightarrow> nat \<Rightarrow> nat \<Rightarrow> nat option" where
  "first_stop stops i 0 = None"
| "first_stop stops i (Suc n) = (if stops i then Some i else first_stop stops (Suc i) n)"

lemma first_stop_None_iff: "first_stop stops i n = None \<longleftrightarrow> (\<forall>k < n. \<not> stops (i + k))"
proof (induction n arbitrary: i)
  case (Suc n)
  have "(\<forall>k < Suc n. \<not> stops (i + k)) \<longleftrightarrow> \<not> stops i \<and> (\<forall>k < n. \<not> stops (Suc i + k))"
    by (auto simp: less_Suc_eq_0_disj)
  with Suc show ?case by simp
qed simp

lemma first_stop_SomeD: "first_stop stops i n = Some j \<Longrightarrow> i \<le> j \<and> j < i + n \<and> stops j"
proof (induction n arbitrary: i)
  case (Suc n)
  then show ?case by (cases "stops i") (use Suc.IH[of "Suc i"] in \<open>auto dest: Suc_leD\<close>)
qed simp

lemma passes_step:
  assumes "0 < tick" "0 < remaining"
  shows "passes tick remaining = Suc (passes tick (remaining - min remaining tick))"
proof (cases "remaining \<le> tick")
  case True
  then have "(remaining + tick - 1) div tick = 1"
    using assms by (intro div_pos_geq[THEN trans]) (auto simp: div_pos_pos_trivial)
  then show ?thesis using True assms by (simp add: passes_def min_def div_pos_pos_trivial)
next
  case False
  have "remaining + tick - 1 = (remaining - tick + tick - 1) + 1 * tick" by simp
  then have "(remaining + tick - 1) div tick = (remaining - tick + tick - 1) div tick + 1"
    using assms by (metis div_mult_self1 less_irrefl add.commute)
  moreover have "0 \<le> (remaining - tick + tick - 1) div tick"
    using assms False by (intro pos_imp_zdiv_nonneg_iff[THEN iffD2]) auto
  ultimately show ?thesis using False by (simp add: passes_def min_def)
qed

lemma wait_loop_ends:
  assumes "0 < tick"
  shows "wait_loop stops tick i remaining =
    (case first_stop stops i (passes tick remaining) of
       None \<Rightarrow> Some (True, i + passes tick remaining) | Some j \<Rightarrow> Some (False, Suc j))"
proof (induction "passes tick remaining" arbitrary: i remaining)
  case 0
  have "remaining \<le> 0"
    using 0 passes_step[OF assms, of remaining] by (cases "0 < remaining") auto
  then show ?case by (subst wait_loop.simps) (simp flip: 0)
next
  case (Suc n)
  have "0 < remaining"
  proof (rule ccontr)
    assume "\<not> 0 < remaining"
    then have "(remaining + tick - 1) div tick \<le> (tick - 1) div tick"
      using assms by (intro zdiv_mono1) auto
    also have "\<dots> = 0" using assms by (simp add: div_pos_pos_trivial)
    finally show False using Suc.hyps(2) by (simp add: passes_def)
  qed
  note p = passes_step[OF assms this]
  with Suc.hyps(2) have n: "passes tick (remaining - min remaining tick) = n" by simp
  show ?case
    using \<open>0 < remaining\<close> Suc.hyps(1)[OF n[symmetric], of "Suc i"]
    by (subst wait_loop.simps) (simp add: n p split: option.split)
qed

lemma backoff_wait_ends:
  assumes "0 < bo_tick (bo_cfg b)"
  obtains go j b' where "backoff_wait stops draw i b = Some (go, j, b')" "i \<le> j"
    "\<not> go \<Longrightarrow> i < j \<and> stops (j - 1)" "bo_cfg b' = bo_cfg b"
proof (cases "first_stop stops i (passes (bo_tick (bo_cfg b)) (compute_delay draw b))")
  case None
  then show ?thesis using that by (simp add: backoff_wait_def wait_loop_ends[OF assms])
next
  case (Some k)
  then have "backoff_wait stops draw i b = Some (False, Suc k, b)"
    by (simp add: backoff_wait_def wait_loop_ends[OF assms])
  then show ?thesis by (rule that) (use first_stop_SomeD[OF Some] in auto)
qed

section \<open>The range of the delays\<close>

text \<open>The delay without jitter, as an integer.\<close>

definition nominal_delay :: "int \<Rightarrow> int" where
  "nominal_delay n = min (500 * 2 ^ nat (min n 6)) 30000"

lemma nominal_delay_range: "500 \<le> nominal_delay n" "nominal_delay n \<le> 30000"
  by (auto simp: nominal_delay_def)

lemma nominal_delay_dvd: "4 dvd nominal_delay n"
proof -
  have "(4::int) dvd 500 * 2 ^ nat (min n 6)" by (rule dvd_mult2) simp
  then show ?thesis by (simp add: nominal_delay_def min_def)
qed

lemma capped_delay_default:
  assumes "bo_cfg b = default_backoff_config"
  shows "capped_delay b = Fin (of_int (nominal_delay (attempt b)))"
proof -
  define k where "k = nat (min (attempt b) 6)"
  have "(2::int) ^ k \<le> 2 ^ 6" by (rule power_increasing) (auto simp: k_def)
  then have k: "(2::int) ^ k \<le> 64" by simp
  have p: "double_of_int (push_bit k 1) = Fin (of_int (2 ^ k))"
    using k by (simp only: push_bit_eq_mult mult_1) (intro double_of_int_exact, simp)
  have "double_of_int 500 * double_of_int (push_bit k 1) = rnd (of_int (500 * 2 ^ k))"
    unfolding p by (simp add: double_of_int_exact)
  also have "\<dots> = Fin (of_int (500 * 2 ^ k))" using k by (intro rnd_int) simp
  finally have r: "double_of_int 500 * double_of_int (push_bit k 1) = Fin (of_int (500 * 2 ^ k))" .
  have c: "double_of_int 30000 = Fin (of_int 30000)" by (rule double_of_int_exact) simp
  have "Fin (rat_of_int 30000) < Fin (of_int (500 * 2 ^ k)) \<longleftrightarrow> 30000 < 500 * (2::int) ^ k"
    unfolding less_double.simps of_int_less_iff ..
  then show ?thesis
    unfolding capped_delay_def Let_def assms k_def[symmetric] nominal_delay_def
      default_backoff_config_def backoff_config.select_convs r c std_min_def
    by (simp only: min_def split: if_split) auto
qed

lemma jitter_factors:
  "lit 1 - lit (1/4) = Fin (3/4)" "lit 1 + lit (1/4) = Fin (5/4)"
proof -
  have e: "rnd (of_int m / 4) = Fin (of_int m / 4)" if "\<bar>m\<bar> \<le> 5" for m
  proof (rule rnd_eq_Fin)
    show "rnd_val (of_int m / 4) = of_int m / 4"
      by (rule rnd_val_exact[of _ m "- 2"]) (use that in \<open>auto simp: power_int_minus_divide\<close>)
    have "\<bar>rat_of_int m\<bar> \<le> 5" using that by linarith
    then show "\<bar>rat_of_int m / 4\<bar> < 2 powi 1024"
      using double_range_pos by (simp add: abs_divide)
  qed
  show "lit 1 - lit (1/4) = Fin (3/4)" "lit 1 + lit (1/4) = Fin (5/4)"
    using e[of 1] e[of 3] e[of 5] by simp_all
qed

lemma jitter_range:
  assumes "bo_cfg b = default_backoff_config" and m: "nominal_delay (attempt b) = 4 * m"
  shows "compute_delay draw b = cast_int 64 (draw (Fin (of_int (3 * m))) (Fin (of_int (5 * m))))"
proof -
  have b: "125 \<le> m" "m \<le> 7500" using nominal_delay_range[of "attempt b"] m by simp_all
  have "Fin (of_int (4 * m)) * Fin (3/4) = rnd (of_int (3 * m))" by simp
  then have l: "Fin (of_int (4 * m)) * Fin (3/4) = Fin (of_int (3 * m))" using b rnd_int[of "3 * m"] by simp
  have "Fin (of_int (4 * m)) * Fin (5/4) = rnd (of_int (5 * m))" by simp
  then have h: "Fin (of_int (4 * m)) * Fin (5/4) = Fin (of_int (5 * m))" using b rnd_int[of "5 * m"] by simp
  have j: "jitter_pct (bo_cfg b) = lit (1/4)" by (simp add: assms(1) default_backoff_config_def)
  show ?thesis
    unfolding compute_delay_def Let_def capped_delay_default[OF assms(1)] m j jitter_factors l h ..
qed

lemma cast_int_between:
  assumes "Fin (of_int lo) \<le> x" "x < Fin (of_int hi)" "0 \<le> lo" "hi \<le> 2 ^ 62"
  shows "lo \<le> cast_int 64 x \<and> cast_int 64 x < hi"
proof -
  obtain q where q: "x = Fin q" "of_int lo \<le> q" "q < of_int hi" using assms(1,2) by (cases x) auto
  then have "lo \<le> \<lfloor>q\<rfloor>" "\<lfloor>q\<rfloor> < hi" by (simp_all add: le_floor_iff floor_less_iff)
  moreover have "0 \<le> q" using q(2) assms(3) by (meson of_int_0_le_iff order_trans)
  ultimately show ?thesis
    using assms(3,4) by (simp add: q(1) cast_int_def trunc_rat_def Let_def del: floor_less_numeral floor_less_iff)
qed

section \<open>The maintenance window is left\<close>

lemma window_active_seconds:
  assumes "0 \<le> now"
  shows "window_active default_maintenance_config now \<longleftrightarrow>
    7200 \<le> (now div nanos_per_sec) mod 86400 \<and> (now div nanos_per_sec) mod 86400 < 11700"
proof -
  have t: "to_time_t now = now div nanos_per_sec" "0 \<le> to_time_t now"
    using assms by (simp_all add: to_time_t_def sdiv_nonneg)
  define r where "r = (now div nanos_per_sec) mod 86400"
  have r: "0 \<le> r" "r < 86400" by (simp_all add: r_def)
  have "utc_minute (to_time_t now) = r div 60"
    using t by (simp add: utc_minute_def smod_nonneg sdiv_nonneg r_def)
  moreover have "wrap32 (r div 60) = r div 60" using r by (intro wrap32_id) auto
  ultimately show ?thesis
    using r by (auto simp: window_active_def in_window_def utc_min_at_def default_maintenance_config_def
        simp flip: r_def)
qed

text \<open>A clock that moves on by a poll interval with every reading, and does not jump over most of a day.\<close>

definition steady :: "(nat \<Rightarrow> time_point) \<Rightarrow> bool" where
  "steady clock \<longleftrightarrow> 0 \<le> clock 0
     \<and> (\<forall>k. clock k + seconds 30 \<le> clock (Suc k) \<and> clock (Suc k) \<le> clock k + seconds 81900)"

lemma steady_nonneg: "steady clock \<Longrightarrow> 0 \<le> clock k"
proof (induction k)
  case (Suc k)
  then have "clock k + seconds 30 \<le> clock (Suc k)" "0 \<le> clock k" by (simp_all add: steady_def)
  then show ?case by linarith
qed (simp add: steady_def)

lemma day_second_step:
  fixes a b :: int
  assumes "7200 \<le> a mod 86400" "a mod 86400 < 11700" "7200 \<le> b mod 86400" "b mod 86400 < 11700"
    and "a + 30 \<le> b" "b \<le> a + 81900"
  shows "a mod 86400 + 30 \<le> b mod 86400"
proof -
  define x y where "x = a div 86400" and "y = b div 86400"
  have "a = 86400 * x + a mod 86400" "b = 86400 * y + b mod 86400" by (simp_all add: x_def y_def)
  note ab = this
  have "x = y"
  proof (rule linorder_cases[of x y])
    assume "x < y"
    then have "x + 1 \<le> y" by simp
    with ab assms show ?thesis by linarith
  next
    assume "y < x"
    then have "y + 1 \<le> x" by simp
    with ab assms show ?thesis by linarith
  qed
  with ab assms(5) show ?thesis by linarith
qed

lemma active_advances:
  assumes "steady clock" and "\<forall>j \<le> n. window_active default_maintenance_config (clock (k + j))"
  shows "7200 + 30 * int n \<le> (clock (k + n) div nanos_per_sec) mod 86400"
  using assms(2)
proof (induction n)
  case 0
  then show ?case using window_active_seconds[OF steady_nonneg[OF assms(1)], of k] by simp
next
  case (Suc n)
  let ?a = "clock (k + n) div nanos_per_sec" and ?b = "clock (k + Suc n) div nanos_per_sec"
  have st: "clock (k + n) + seconds 30 \<le> clock (k + Suc n)" "clock (k + Suc n) \<le> clock (k + n) + seconds 81900"
    using assms(1) by (simp_all add: steady_def)
  have "?a + 30 = (clock (k + n) + seconds 30) div nanos_per_sec" by simp
  also have "\<dots> \<le> ?b" using st(1) by (rule zdiv_mono1) simp
  finally have lo: "?a + 30 \<le> ?b" .
  have "?b \<le> (clock (k + n) + seconds 81900) div nanos_per_sec" using st(2) by (rule zdiv_mono1) simp
  also have "\<dots> = ?a + 81900" by simp
  finally have hi: "?b \<le> ?a + 81900" .
  have "window_active default_maintenance_config (clock (k + n))"
    "window_active default_maintenance_config (clock (k + Suc n))"
    using Suc.prems[rule_format, of n] Suc.prems[rule_format, of "Suc n"] by simp_all
  then have "?a mod 86400 + 30 \<le> ?b mod 86400"
    using window_active_seconds[OF steady_nonneg[OF assms(1)]] lo hi by (intro day_second_step) auto
  then show ?case using Suc by simp
qed

lemma first_outside:
  fixes k n :: nat
  assumes "\<not> window_active cfg (clock (k + n))"
  obtains m where "m \<le> n" "\<not> window_active cfg (clock (k + m))" "\<forall>j < m. window_active cfg (clock (k + j))"
  using ex_least_nat_le[of "\<lambda>n. \<not> window_active cfg (clock (k + n))" n, OF assms] that by auto

lemma window_ends:
  assumes "steady clock"
  obtains n where "n \<le> 150" "\<not> window_active default_maintenance_config (clock (k + n))"
    "\<forall>j < n. window_active default_maintenance_config (clock (k + j))"
proof -
  let ?P = "\<lambda>n. \<not> window_active default_maintenance_config (clock (k + n))"
  have "\<exists>n \<le> 150. ?P n"
  proof (rule ccontr)
    assume "\<not> (\<exists>n \<le> 150. ?P n)"
    then have a: "\<forall>j \<le> 150. window_active default_maintenance_config (clock (k + j))" by blast
    from active_advances[OF assms a] window_active_seconds[OF steady_nonneg[OF assms], of "k + 150"] a
    show False by auto
  qed
  then obtain m where m: "m \<le> 150" "?P m" by blast
  show ?thesis by (rule first_outside[of default_maintenance_config clock k m, OF m(2)], rule that) (use m(1) in auto)
qed

lemma maint_loop_ends:
  assumes "\<not> window_active cfg (clock (k + n))" "\<forall>j < n. window_active cfg (clock (k + j))"
  shows "maint_loop cfg stops clock i k =
    (case first_stop stops i (Suc n) of
       None \<Rightarrow> Some (True, i + Suc n, k + Suc n) | Some j \<Rightarrow> Some (False, Suc j, k + (j - i)))"
  using assms
proof (induction n arbitrary: i k)
  case 0
  then show ?case by (subst maint_loop.simps) simp
next
  case (Suc n)
  have "window_active cfg (clock k)" using Suc.prems(2) by (metis add_0_right zero_less_Suc)
  moreover have "maint_loop cfg stops clock (Suc i) (Suc k) =
    (case first_stop stops (Suc i) (Suc n) of
       None \<Rightarrow> Some (True, Suc i + Suc n, Suc k + Suc n) | Some j \<Rightarrow> Some (False, Suc j, Suc k + (j - Suc i)))"
    using Suc.prems by (intro Suc.IH) (simp, metis Suc_less_eq add_Suc_right add_Suc)
  ultimately show ?case
    by (subst maint_loop.simps) (auto split: option.split if_split dest!: first_stop_SomeD)
qed

text \<open>A wait ends with the first reading outside the window, unless the flag is seen before.\<close>

lemma wait_if_active_first:
  assumes "\<not> window_active cfg (clock (k + n))" "\<forall>j < n. window_active cfg (clock (k + j))"
  obtains go j m where "wait_if_active cfg stops clock i k = Some (go, j, m)" "i \<le> j" "j \<le> i + n"
    "if go then \<not> window_active cfg (clock (m - 1)) else i < j \<and> stops (j - 1)"
proof (cases n)
  case 0
  then have "wait_if_active cfg stops clock i k = Some (True, i, Suc k)"
    using assms(1) by (simp add: wait_if_active_def)
  then show ?thesis by (rule that) (use assms(1) 0 in auto)
next
  case (Suc p)
  have a: "window_active cfg (clock k)" using assms(2) Suc by (metis add_0_right zero_less_Suc)
  have e: "\<not> window_active cfg (clock (Suc k + p))" using assms(1) Suc by simp
  have "\<forall>j < p. window_active cfg (clock (Suc k + j))"
    using assms(2) Suc by (metis Suc_less_eq add_Suc_right add_Suc)
  note l = maint_loop_ends[OF e this, of stops i]
  have w: "wait_if_active cfg stops clock i k = maint_loop cfg stops clock i (Suc k)"
    using a by (simp add: wait_if_active_def)
  show ?thesis
  proof (cases "first_stop stops i (Suc p)")
    case None
    then have "wait_if_active cfg stops clock i k = Some (True, i + Suc p, Suc k + Suc p)"
      unfolding w l by simp
    then show ?thesis by (rule that) (use Suc e in auto)
  next
    case (Some j)
    then have "wait_if_active cfg stops clock i k = Some (False, Suc j, Suc k + (j - i))"
      unfolding w l by simp
    then show ?thesis by (rule that) (use first_stop_SomeD[OF Some] Suc in auto)
  qed
qed

text \<open>A clock that always leaves the window again.\<close>

definition window_passes :: "maintenance_config \<Rightarrow> (nat \<Rightarrow> time_point) \<Rightarrow> bool" where
  "window_passes cfg clock \<longleftrightarrow> (\<forall>k. \<exists>n. \<not> window_active cfg (clock (k + n)))"

lemma wait_if_active_ends:
  assumes "window_passes cfg clock"
  obtains go j m where "wait_if_active cfg stops clock i k = Some (go, j, m)" "i \<le> j"
    "if go then \<not> window_active cfg (clock (m - 1)) else i < j \<and> stops (j - 1)"
proof -
  obtain p where "\<not> window_active cfg (clock (k + p))" using assms by (auto simp: window_passes_def)
  then obtain n where n: "\<not> window_active cfg (clock (k + n))" "\<forall>j < n. window_active cfg (clock (k + j))"
    by (rule first_outside)
  show ?thesis by (rule wait_if_active_first[OF n, of stops i]) (rule that)
qed

lemma delay_within:
  assumes "uniform draw" and "bo_cfg b = default_backoff_config" and m: "nominal_delay (attempt b) = 4 * m"
  shows "3 * m \<le> compute_delay draw b \<and> compute_delay draw b < 5 * m"
proof -
  have b: "125 \<le> m" "m \<le> 7500" using nominal_delay_range[of "attempt b"] m by simp_all
  have "Fin (rat_of_int (3 * m)) < Fin (of_int (5 * m))"
    unfolding less_double.simps of_int_less_iff using b by simp
  then have "Fin (of_int (3 * m)) \<le> draw (Fin (of_int (3 * m))) (Fin (of_int (5 * m)))"
    "draw (Fin (of_int (3 * m))) (Fin (of_int (5 * m))) < Fin (of_int (5 * m))"
    using assms(1) by (simp_all add: uniform_def del: of_int_mult)
  from cast_int_between[OF this] b show ?thesis unfolding jitter_range[OF assms(2) m] by simp
qed

text \<open>Up to the cap the delays grow faster than the jitter.\<close>

lemma nominal_delay_grows:
  assumes "0 \<le> n" "n < 6"
  shows "5 * nominal_delay n \<le> 3 * nominal_delay (n + 1)"
proof -
  have "n \<in> {0, 1, 2, 3, 4, 5}" using assms by auto
  then show ?thesis by (auto simp: nominal_delay_def)
qed

lemma delays_grow:
  assumes "uniform draw" "uniform draw'" and "bo_cfg b = default_backoff_config" "0 \<le> attempt b" "attempt b < 6"
  shows "compute_delay draw b < compute_delay draw' (b\<lparr>attempt := attempt b + 1\<rparr>)"
proof -
  obtain m m' where m: "nominal_delay (attempt b) = 4 * m" "nominal_delay (attempt b + 1) = 4 * m'"
    using nominal_delay_dvd by (metis dvdE)
  have "compute_delay draw b < 5 * m" using delay_within[OF assms(1,3) m(1)] by simp
  also have "5 * m \<le> 3 * m'" using nominal_delay_grows[OF assms(4,5)] m by simp
  also have "3 * m' \<le> compute_delay draw' (b\<lparr>attempt := attempt b + 1\<rparr>)"
    using delay_within[OF assms(2), of "b\<lparr>attempt := attempt b + 1\<rparr>" m'] assms(3) m(2) by simp
  finally show ?thesis .
qed

section \<open>Properties\<close>

text \<open>
  C29: the delay before reconnect number \<open>n + 1\<close>, with the default configuration, lies within a
  quarter of \<open>min (500 * 2 ^ min n 6) 30000\<close> milliseconds, whatever the random numbers are; and for
  the first six reconnects the next delay is longer, whatever the random numbers are.
\<close>

theorem backoff_delay_bounds:
  assumes "uniform draw" and "uniform draw'" and "bo_cfg b = default_backoff_config"
  shows "3 * nominal_delay (attempt b) \<le> 4 * compute_delay draw b
    \<and> 4 * compute_delay draw b < 5 * nominal_delay (attempt b)
    \<and> (0 \<le> attempt b \<and> attempt b < 6 \<longrightarrow> compute_delay draw b < compute_delay draw' (b\<lparr>attempt := attempt b + 1\<rparr>))"
proof -
  obtain m where m: "nominal_delay (attempt b) = 4 * m" using nominal_delay_dvd by (rule dvdE)
  show ?thesis using delay_within[OF assms(1,3) m] m delays_grow[OF assms] by simp
qed

theorem backoff_delay_bounds_witness:
  "3 * 500 \<le> 4 * compute_delay (\<lambda>a b. a) (new_backoff default_backoff_config)
   \<and> 4 * compute_delay (\<lambda>a b. a) (new_backoff default_backoff_config) < 5 * 500
   \<and> compute_delay (\<lambda>a b. a) (new_backoff default_backoff_config)
       < compute_delay (\<lambda>a b. a) ((new_backoff default_backoff_config)\<lparr>attempt := 1\<rparr>)"
  using backoff_delay_bounds[of "\<lambda>a b. a" "\<lambda>a b. a" "new_backoff default_backoff_config"]
  by (simp add: uniform_def new_backoff_def nominal_delay_def double_less_not_NaN)

text \<open>The jitter comes after the cap: from the seventh attempt on a delay may exceed \<open>cap\<close>.\<close>

lemma backoff_exceeds_cap:
  assumes "bo_cfg b = default_backoff_config" and "6 \<le> attempt b"
  shows "\<exists>draw. uniform draw \<and> bo_cap (bo_cfg b) < compute_delay draw b"
proof (intro exI conjI)
  let ?d = "\<lambda>a b. if a < Fin 37499 \<and> Fin 37499 < b then Fin 37499 else a"
  show "uniform ?d" by (auto simp: uniform_def double_less_imp_le dest: double_less_not_NaN)
  have m: "nominal_delay (attempt b) = 4 * 7500" using assms(2) by (simp add: nominal_delay_def)
  have "cast_int 64 (Fin (of_int 37499)) = 37499" by (rule cast_int_Fin_int) simp_all
  then show "bo_cap (bo_cfg b) < compute_delay ?d b"
    unfolding jitter_range[OF assms(1) m] by (simp add: assms(1) default_backoff_config_def)
qed

text \<open>
  C30: a wait for the end of the maintenance window ends. If the clock advances by the poll
  interval or more between two readings, and never jumps over the rest of the day,
  \<open>wait_if_active\<close> returns after at most 150 looks at the stop flag: with true when the window
  is over, with false only when the flag is set.
\<close>

theorem maintenance_wait_ends:
  assumes "steady clock"
  shows "\<exists>go j m. wait_if_active default_maintenance_config stops clock i k = Some (go, j, m) \<and> j \<le> i + 150
    \<and> (if go then \<not> window_active default_maintenance_config (clock (m - 1)) else stops (j - 1))"
proof -
  let ?cfg = default_maintenance_config
  obtain n where n: "n \<le> 150" "\<not> window_active ?cfg (clock (k + n))" "\<forall>j < n. window_active ?cfg (clock (k + j))"
    by (rule window_ends[OF assms])
  obtain go j m where "wait_if_active ?cfg stops clock i k = Some (go, j, m)" "j \<le> i + n"
    "if go then \<not> window_active ?cfg (clock (m - 1)) else i < j \<and> stops (j - 1)"
    by (rule wait_if_active_first[OF n(2,3)])
  then show ?thesis using n(1) by (intro exI[of _ go] exI[of _ j] exI[of _ m]) auto
qed

theorem maintenance_wait_ends_witness:
  "\<exists>go j m. wait_if_active default_maintenance_config (\<lambda>_. False) (\<lambda>k. seconds (8000 + 30 * int k)) 0 0
     = Some (go, j, m) \<and> j \<le> 150"
  using maintenance_wait_ends[of "\<lambda>k. seconds (8000 + 30 * int k)" "\<lambda>_. False" 0 0]
  by (force simp: steady_def)

end
