(* ===== verification/Stream_Loop.thy ===== *)
theory Stream_Loop
  imports Backoff "HOL-Library.Sublist"
begin

text \<open>
  The loop every streaming client of the program runs in its own thread: connect, read messages
  until the stream ends or the stop flag is set, then wait and connect again. The five
  subscriptions of \<open>src/market_data/market_data_client.cpp\<close> differ in the handler of a message
  and in what they clear before a reconnect; the order stream and the token renewal share the
  inner loop.

  A run is given by what the thread meets: the values of its loads of the stop flag, and for every
  connection the messages that \<open>Read\<close> delivers before it fails, with the random numbers of the
  wait that follows. When the connections are used up the observation ends with the thread still
  running. The callbacks made are the output.
\<close>

section \<open>The loops\<close>

text \<open>\<open>while (!stop->load() && stream->Read(&resp))\<close>; a handler that breaks out returns \<open>None\<close>.\<close>

fun read_loop ::
  "(nat \<Rightarrow> bool) \<Rightarrow> ('s \<Rightarrow> 'm \<Rightarrow> ('o list \<times> 's) option) \<Rightarrow> nat \<Rightarrow> 's \<Rightarrow> 'm list \<Rightarrow> 'o list \<times> nat \<times> 's" where
  "read_loop stops h i s [] = ([], Suc i, s)"
| "read_loop stops h i s (m # ms) =
     (if stops i then ([], Suc i, s)
      else case h s m of
             None \<Rightarrow> ([], Suc i, s)
           | Some (out, s1) \<Rightarrow> (let (outs, j, s2) = read_loop stops h (Suc i) s1 ms in (out @ outs, j, s2)))"

text \<open>The handler followed by \<open>bo.reset()\<close>.\<close>

definition with_reset ::
  "('s \<Rightarrow> 'm \<Rightarrow> ('o list \<times> 's) option) \<Rightarrow> 's \<times> backoff \<Rightarrow> 'm \<Rightarrow> ('o list \<times> 's \<times> backoff) option" where
  "with_reset h sb m =
     (case sb of (s, b) \<Rightarrow>
        (case h s m of None \<Rightarrow> None | Some (out, s1) \<Rightarrow> Some (out, s1, backoff_reset b)))"

datatype loop_status = LoopStopped | LoopRunning

fun reconnect_loop ::
  "(nat \<Rightarrow> bool) \<Rightarrow> ('s \<Rightarrow> 'm \<Rightarrow> ('o list \<times> 's) option) \<Rightarrow> ('s \<Rightarrow> 's) \<Rightarrow> nat \<Rightarrow> 's \<Rightarrow> backoff
     \<Rightarrow> ('m list \<times> distribution) list \<Rightarrow> ('o list \<times> loop_status \<times> 's) option" where
  "reconnect_loop stops h clear i s b [] = Some ([], LoopRunning, s)"
| "reconnect_loop stops h clear i s b ((ms, draw) # cs) =
     (if stops i then Some ([], LoopStopped, s)
      else let (outs, j, s1, b1) = read_loop stops (with_reset h) (Suc i) (s, b) ms
           in if stops j
              then map_option (\<lambda>(os, st, s2). (outs @ os, st, s2)) (reconnect_loop stops h clear (Suc j) s1 b1 cs)
              else (case backoff_wait stops draw (Suc j) b1 of
                      None \<Rightarrow> None
                    | Some (go, k, b2) \<Rightarrow>
                        if go then map_option (\<lambda>(os, st, s2). (outs @ os, st, s2))
                                     (reconnect_loop stops h clear k (clear s1) b2 cs)
                        else Some (outs, LoopStopped, clear s1)))"

section \<open>What a subscription promises\<close>

text \<open>The contract: every message of every connection is handled in order, up to a break.\<close>

fun feed :: "('s \<Rightarrow> 'm \<Rightarrow> ('o list \<times> 's) option) \<Rightarrow> 's \<Rightarrow> 'm list \<Rightarrow> 'o list \<times> 's" where
  "feed h s [] = ([], s)"
| "feed h s (m # ms) =
     (case h s m of None \<Rightarrow> ([], s) | Some (out, s1) \<Rightarrow> (let (outs, s2) = feed h s1 ms in (out @ outs, s2)))"

fun feed_all :: "('s \<Rightarrow> 'm \<Rightarrow> ('o list \<times> 's) option) \<Rightarrow> ('s \<Rightarrow> 's) \<Rightarrow> 's \<Rightarrow> 'm list list \<Rightarrow> 'o list \<times> 's" where
  "feed_all h clear s [] = ([], s)"
| "feed_all h clear s (ms # mss) =
     (let (outs, s1) = feed h s ms; (os, s2) = feed_all h clear (clear s1) mss in (outs @ os, s2))"

lemma with_reset_simps [simp]:
  "with_reset h (s, b) m = (case h s m of None \<Rightarrow> None | Some (out, s1) \<Rightarrow> Some (out, s1, backoff_reset b))"
  by (simp add: with_reset_def)

lemma backoff_reset_cfg [simp]: "bo_cfg (backoff_reset b) = bo_cfg b"
  by (simp add: backoff_reset_def)

text \<open>
  The inner loop: it loads the flag at least once, keeps the backoff's configuration, and unless
  its last load saw the flag set it has handled the whole connection.
\<close>

lemma read_loop_feed:
  assumes "read_loop stops (with_reset h) i (s, b) ms = (outs, j, s1, b1)"
  shows "i < j \<and> bo_cfg b1 = bo_cfg b \<and> prefix outs (fst (feed h s ms))
    \<and> (stops (j - 1) \<or> feed h s ms = (outs, s1))"
  using assms
proof (induction ms arbitrary: i s b outs)
  case (Cons m ms)
  show ?case
  proof (cases "stops i \<or> h s m = None")
    case True
    then show ?thesis using Cons.prems by (auto split: option.splits)
  next
    case False
    then obtain out s2 where h: "h s m = Some (out, s2)" "\<not> stops i" by auto
    obtain os where r: "read_loop stops (with_reset h) (Suc i) (s2, backoff_reset b) ms = (os, j, s1, b1)"
      and o: "outs = out @ os" using Cons.prems h by (auto split: prod.splits)
    show ?thesis using Cons.IH[OF r] h o by (auto split: prod.splits)
  qed
qed simp

lemma feed_all_prefix:
  "prefix outs (fst (feed h s ms)) \<Longrightarrow> prefix outs (fst (feed_all h clear s (ms # mss)))"
  by (auto simp: case_prod_beta intro: prefix_prefix)

text \<open>The flag is a latch: once a load has seen it set, every later load does.\<close>

definition latched :: "(nat \<Rightarrow> bool) \<Rightarrow> bool" where
  "latched stops \<longleftrightarrow> (\<forall>i j. i \<le> j \<and> stops i \<longrightarrow> stops j)"

lemma latchedD: "latched stops \<Longrightarrow> stops i \<Longrightarrow> i \<le> j \<Longrightarrow> stops j"
  by (auto simp: latched_def)

lemma stopped_loop:
  "latched stops \<Longrightarrow> stops i \<Longrightarrow> i \<le> k \<Longrightarrow>
   reconnect_loop stops h clear k s b cs = Some ([], if cs = [] then LoopRunning else LoopStopped, s)"
  using latchedD[of stops i k] by (cases cs) auto

text \<open>
  What the outer loop of a stream promises from load \<open>i\<close> of the flag on: it returns, its callbacks are
  an initial part of what the contract demands, all of it when the flag is never set, and it stops
  as soon as the flag is seen. The two ways to handle a connection are to end after a part of it and
  to handle it whole and go on.
\<close>

definition stream_result ::
  "(nat \<Rightarrow> bool) \<Rightarrow> nat \<Rightarrow> ('s \<Rightarrow> 'm \<Rightarrow> ('o list \<times> 's) option) \<Rightarrow> ('s \<Rightarrow> 's) \<Rightarrow> nat \<Rightarrow> 's \<Rightarrow> 'm list list
     \<Rightarrow> ('o list \<times> loop_status \<times> 's) option \<Rightarrow> bool" where
  "stream_result stops N h clear i s mss r \<longleftrightarrow>
     (\<exists>outs st s'. r = Some (outs, st, s') \<and> prefix outs (fst (feed_all h clear s mss))
        \<and> ((\<forall>n. \<not> stops n) \<longrightarrow> feed_all h clear s mss = (outs, s'))
        \<and> (stops N \<and> N - i < length mss \<longrightarrow> st = LoopStopped))"

lemma stream_idle: "stream_result stops N h clear i s [] (Some ([], st, s))"
  by (simp add: stream_result_def)

lemma stream_ends:
  assumes "stops k" and "prefix outs (fst (feed h s ms))"
    and "stops N \<Longrightarrow> N - i < length (ms # mss) \<Longrightarrow> st = LoopStopped"
  shows "stream_result stops N h clear i s (ms # mss) (Some (outs, st, s'))"
  using assms feed_all_prefix[OF assms(2)] unfolding stream_result_def by blast

lemma stream_continues:
  assumes "latched stops" "\<not> stops i" "i < k" "feed h s ms = (outs, s1)"
    and "stream_result stops N h clear k (clear s1) mss r"
  shows "stream_result stops N h clear i s (ms # mss) (map_option (\<lambda>(os, st, s2). (outs @ os, st, s2)) r)"
proof -
  obtain os st s' where r: "r = Some (os, st, s')" "prefix os (fst (feed_all h clear (clear s1) mss))"
    "(\<forall>n. \<not> stops n) \<longrightarrow> feed_all h clear (clear s1) mss = (os, s')"
    "stops N \<and> N - k < length mss \<longrightarrow> st = LoopStopped"
    using assms(5) by (auto simp: stream_result_def)
  have "N - k < length mss" if "stops N" "N - i < length (ms # mss)"
  proof -
    have "i < N" using latchedD[OF assms(1) that(1), of i] assms(2) by (cases "i < N") auto
    then show ?thesis using that(2) assms(3) by simp
  qed
  with r show ?thesis by (auto simp: stream_result_def assms(4) case_prod_beta)
qed

text \<open>Unless the load after the inner loop sees the flag set, the connection was handled whole.\<close>

lemma read_loop_whole:
  assumes "latched stops" "read_loop stops (with_reset h) i (s, b) ms = (outs, j, s1, b1)" "\<not> stops j"
  shows "feed h s ms = (outs, s1)"
  using read_loop_feed[OF assms(2)] latchedD[OF assms(1), of "j - 1" j] assms(3) by auto

lemma reconnect_loop_result:
  assumes "latched stops" and "0 < bo_tick (bo_cfg b)"
  shows "stream_result stops N h clear i s (map fst cs) (reconnect_loop stops h clear i s b cs)"
  using assms(2)
proof (induction cs arbitrary: i s b)
  case (Cons c cs)
  obtain ms draw where c: "c = (ms, draw)" by (cases c)
  obtain outs j s1 b1 where r: "read_loop stops (with_reset h) (Suc i) (s, b) ms = (outs, j, s1, b1)"
    by (metis prod_cases4)
  note f = read_loop_feed[OF r]
  obtain go k b2 where w: "backoff_wait stops draw (Suc j) b1 = Some (go, k, b2)" "Suc j \<le> k"
    "\<not> go \<Longrightarrow> stops (k - 1)" "bo_cfg b2 = bo_cfg b1"
    using backoff_wait_ends[of b1 stops draw "Suc j"] f Cons.prems by metis
  consider "stops i" | (last) "\<not> stops i" "stops j" | (stop) "\<not> stops i" "\<not> stops j" "\<not> go"
    | (go) "\<not> stops i" "\<not> stops j" go by blast
  then show ?case
  proof cases
    case 1
    then show ?thesis by (simp add: c stream_ends)
  next
    case last
    have "cs \<noteq> []" if "stops N" "N - i < length (c # cs)"
      using that last latchedD[OF assms(1), of N i] by (cases cs) auto
    then show ?thesis
      using last r f by (auto simp: c stopped_loop[OF assms(1) last(2)] intro!: stream_ends)
  next
    case stop
    then show ?thesis using r f w by (auto simp: c intro: stream_ends)
  next
    case go
    have "stream_result stops N h clear k (clear s1) (map fst cs) (reconnect_loop stops h clear k (clear s1) b2 cs)"
      by (rule Cons.IH) (use w(4) f Cons.prems in simp)
    from stream_continues[OF assms(1) go(1) _ read_loop_whole[OF assms(1) r go(2)] this]
    show ?thesis using go r f w by (simp add: c)
  qed
qed (simp add: stream_idle)

lemmas reconnect_loop_spec = reconnect_loop_result[unfolded stream_result_def length_map]

text \<open>
  An invariant of the state that every sane message keeps, and a property of the callbacks that
  follows from it: both hold throughout the thread's life.
\<close>

locale stream_consumer =
  fixes h :: "'s \<Rightarrow> 'm \<Rightarrow> ('o list \<times> 's) option"
    and clear :: "'s \<Rightarrow> 's"
    and inv :: "'s \<Rightarrow> bool"
    and sane :: "'m \<Rightarrow> bool"
    and good :: "'o \<Rightarrow> bool"
  assumes handle_inv: "inv s \<Longrightarrow> sane m \<Longrightarrow> h s m = Some (out, s1) \<Longrightarrow> inv s1 \<and> list_all good out"
    and clear_inv: "inv s \<Longrightarrow> inv (clear s)"
begin

lemma read_loop_inv:
  "inv s \<Longrightarrow> list_all sane ms \<Longrightarrow> read_loop stops h i s ms = (outs, j, s1) \<Longrightarrow>
   inv s1 \<and> list_all good outs \<and> i < j"
proof (induction ms arbitrary: s outs i)
  case (Cons m ms)
  show ?case
  proof (cases "stops i \<or> h s m = None")
    case False
    then obtain out s2 where h: "h s m = Some (out, s2)" "\<not> stops i" by auto
    obtain os where r: "read_loop stops h (Suc i) s2 ms = (os, j, s1)" "outs = out @ os"
      using Cons.prems(3) h by (auto split: prod.splits)
    show ?thesis using handle_inv[OF Cons.prems(1) _ h(1)] Cons.prems(2) Cons.IH[OF _ _ r(1)] r(2) by auto
  qed (use Cons.prems in \<open>auto split: option.splits\<close>)
qed simp

lemma feed_inv: "inv s \<Longrightarrow> list_all sane ms \<Longrightarrow> feed h s ms = (outs, s1) \<Longrightarrow> inv s1 \<and> list_all good outs"
proof (induction ms arbitrary: s outs)
  case (Cons m ms)
  show ?case
  proof (cases "h s m")
    case (Some p)
    obtain out s2 where p: "p = (out, s2)" by fastforce
    obtain os where f: "feed h s2 ms = (os, s1)" "outs = out @ os"
      using Cons.prems(3) Some p by (auto split: prod.splits)
    show ?thesis using handle_inv[OF Cons.prems(1)] Cons.prems(2) Some p Cons.IH[OF _ _ f(1)] f(2) by auto
  qed (use Cons.prems in auto)
qed simp

lemma feed_all_inv:
  "inv s \<Longrightarrow> list_all (list_all sane) mss \<Longrightarrow> feed_all h clear s mss = (outs, s1) \<Longrightarrow> inv s1 \<and> list_all good outs"
proof (induction mss arbitrary: s outs)
  case (Cons ms mss)
  obtain o1 s2 where f: "feed h s ms = (o1, s2)" by fastforce
  obtain o2 where a: "feed_all h clear (clear s2) mss = (o2, s1)" "outs = o1 @ o2"
    using Cons.prems(3) f by (auto split: prod.splits)
  show ?case using feed_inv[OF Cons.prems(1) _ f] Cons.prems(2) Cons.IH[OF clear_inv _ a(1)] a(2) by auto
qed simp

lemma callbacks_good:
  assumes "inv s" "latched stops" "0 < bo_tick (bo_cfg b)" "list_all (\<lambda>c. list_all sane (fst c)) cs"
    and "reconnect_loop stops h clear i s b cs = Some (outs, st, s')"
  shows "list_all good outs"
proof -
  have "prefix outs (fst (feed_all h clear s (map fst cs)))"
    using reconnect_loop_spec[OF assms(2,3), of h clear i s cs] assms(5) by auto
  then obtain rest where "fst (feed_all h clear s (map fst cs)) = outs @ rest" by (auto elim: prefixE)
  moreover have "list_all (list_all sane) (map fst cs)" using assms(4) by (simp add: list_all_iff)
  ultimately show ?thesis using feed_all_inv[OF assms(1)] by (metis list_all_append prod.collapse)
qed

end

end
