(* ===== verification/Market_Data.thy ===== *)
theory Market_Data
  imports Stream_Loop Cxx_Text Ofi_Types
begin

text \<open>
  \<open>src/market_data/market_data_client.cpp\<close>: the conversion of the broker's messages, the request
  for historical bars and the five subscriptions. The broker's stubs are parameters: \<open>Bars\<close> is a
  function from the request to a status message or the response, and a streaming call is what its
  connections deliver (see \<open>Stream_Loop\<close>). Messages are records of the fields the code reads;
  decimals are texts.

  \<open>std::map<double, OrderBookRow>\<close> is a list of key-value pairs walked in the order of the map's
  comparison, as \<open>lower_bound\<close> does; the contract \<open>price_order\<close> says when that is a sorted map,
  and both comparisons of the code satisfy it on prices that are not NaN.
\<close>

section \<open>Conversions\<close>

datatype time_frame = TF_M1 | TF_M5 | TF_M15 | TF_M30 | TF_H1 | TF_H2 | TF_H4 | TF_H8
  | TF_D | TF_W | TF_MN | TF_QR

definition timeframe_to_proto :: "string \<Rightarrow> time_frame" where
  "timeframe_to_proto tf =
     (if tf = ''M1'' then TF_M1 else if tf = ''M5'' then TF_M5 else if tf = ''M15'' then TF_M15
      else if tf = ''M30'' then TF_M30 else if tf = ''H1'' then TF_H1 else if tf = ''H2'' then TF_H2
      else if tf = ''H4'' then TF_H4 else if tf = ''H8'' then TF_H8 else if tf = ''D1'' then TF_D
      else if tf = ''W1'' then TF_W else if tf = ''MN'' then TF_MN else if tf = ''QR'' then TF_QR
      else TF_M1)"

record proto_timestamp =
  pt_seconds :: int
  pt_nanos :: int

definition ts_from_proto :: "proto_timestamp \<Rightarrow> time_point" where
  "ts_from_proto ts = seconds (pt_seconds ts) + pt_nanos ts"

definition symbol_from_string :: "string \<Rightarrow> symbol" where
  "symbol_from_string s =
     (case rfind_char (CHR ''@'') s of
        None \<Rightarrow> \<lparr>security_code = s, security_board = []\<rparr>
      | Some pos \<Rightarrow> \<lparr>security_code = take pos s, security_board = drop (pos + 1) s\<rparr>)"

text \<open>The delay that \<open>log_reconnect\<close> reports.\<close>

definition reconnect_delay_ms :: "int \<Rightarrow> int" where
  "reconnect_delay_ms n = cast_int 32 (std_min (lit 500 * double_of_int (push_bit (nat (min n 6)) 1)) (lit 30000))"

text \<open>The metadata of a call.\<close>

definition make_context :: "string \<Rightarrow> string \<times> string" where
  "make_context jwt = (''authorization'', ''Bearer '' @ jwt)"

section \<open>Historical bars\<close>

record bars_request =
  br_symbol :: string
  br_timeframe :: time_frame
  br_start_time :: int
  br_end_time :: int

record proto_bar =
  pb_open :: string
  pb_high :: string
  pb_low :: string
  pb_close :: string
  pb_volume :: string
  pb_timestamp :: proto_timestamp

definition bar_of_proto :: "symbol \<Rightarrow> string \<Rightarrow> proto_bar \<Rightarrow> bar" where
  "bar_of_proto sy tf b =
     \<lparr>bar_symbol = sy, timeframe = tf, bar_open = decimal_to_double (pb_open b),
      bar_high = decimal_to_double (pb_high b), bar_low = decimal_to_double (pb_low b),
      bar_close = decimal_to_double (pb_close b), bar_volume = cast_int 64 (decimal_to_double (pb_volume b)),
      bar_ts = ts_from_proto (pb_timestamp b), bar_date = []\<rparr>"

definition get_bars ::
  "(string \<times> string \<Rightarrow> bars_request \<Rightarrow> string + proto_bar list) \<Rightarrow> string \<Rightarrow> symbol \<Rightarrow> string
     \<Rightarrow> time_point \<Rightarrow> time_point \<Rightarrow> bar list result" where
  "get_bars rpc jwt sy tf from to =
     (let req = \<lparr>br_symbol = symbol_to_string sy, br_timeframe = timeframe_to_proto tf,
                 br_start_time = to_time_t from, br_end_time = to_time_t to\<rparr>
      in case rpc (make_context jwt) req of
           Inl msg \<Rightarrow> Inl (mk_error RpcError msg)
         | Inr bs \<Rightarrow> Inr (map (bar_of_proto sy tf) bs))"

section \<open>Quotes and bars\<close>

record proto_quote =
  pq_symbol :: string
  pq_bid :: string
  pq_ask :: string
  pq_last :: string
  pq_last_size :: string
  pq_timestamp :: proto_timestamp

record quote_response =
  qr_error_code :: "int option"
  qr_quotes :: "proto_quote list"

definition quote_of_proto :: "proto_quote \<Rightarrow> quote" where
  "quote_of_proto q =
     \<lparr>q_symbol = symbol_from_string (pq_symbol q), q_bid = decimal_to_double (pq_bid q),
      q_ask = decimal_to_double (pq_ask q), q_last = decimal_to_double (pq_last q),
      q_volume = cast_int 64 (decimal_to_double (pq_last_size q)), q_ts = ts_from_proto (pq_timestamp q)\<rparr>"

definition on_quote_response :: "unit \<Rightarrow> quote_response \<Rightarrow> (quote list \<times> unit) option" where
  "on_quote_response s resp =
     (case qr_error_code resp of
        Some code \<Rightarrow> if code \<noteq> 0 then None else Some (map quote_of_proto (qr_quotes resp), s)
      | None \<Rightarrow> Some (map quote_of_proto (qr_quotes resp), s))"

definition subscribe_quotes ::
  "(nat \<Rightarrow> bool) \<Rightarrow> (quote_response list \<times> distribution) list \<Rightarrow> (quote list \<times> loop_status \<times> unit) option" where
  "subscribe_quotes stops conns =
     reconnect_loop stops on_quote_response (\<lambda>s. s) 0 () (new_backoff default_backoff_config) conns"

text \<open>The names sent in the request of \<open>subscribe_quotes\<close>.\<close>

definition quote_request :: "symbol list \<Rightarrow> string list" where
  "quote_request symbols = map symbol_to_string symbols"

definition on_bars_response :: "symbol \<Rightarrow> string \<Rightarrow> unit \<Rightarrow> proto_bar list \<Rightarrow> (bar list \<times> unit) option" where
  "on_bars_response sy tf s resp = Some (map (bar_of_proto sy tf) resp, s)"

definition subscribe_bars ::
  "symbol \<Rightarrow> string \<Rightarrow> (nat \<Rightarrow> bool) \<Rightarrow> (proto_bar list list \<times> distribution) list
     \<Rightarrow> (bar list \<times> loop_status \<times> unit) option" where
  "subscribe_bars sy tf stops conns =
     (let sym = symbol_from_string (symbol_to_string sy)
      in reconnect_loop stops (on_bars_response sym tf) (\<lambda>s. s) 0 () (new_backoff default_backoff_config) conns)"

section \<open>The order book\<close>

text \<open>\<open>m[k] = v\<close> and \<open>m.erase(k)\<close> of a \<open>std::map\<close> with comparison \<open>lt\<close>.\<close>

fun map_put :: "(double \<Rightarrow> double \<Rightarrow> bool) \<Rightarrow> double \<Rightarrow> 'v \<Rightarrow> (double \<times> 'v) list \<Rightarrow> (double \<times> 'v) list" where
  "map_put lt k v [] = [(k, v)]"
| "map_put lt k v ((k', v') # m) =
     (if lt k' k then (k', v') # map_put lt k v m
      else if lt k k' then (k, v) # (k', v') # m else (k', v) # m)"

fun map_erase :: "(double \<Rightarrow> double \<Rightarrow> bool) \<Rightarrow> double \<Rightarrow> (double \<times> 'v) list \<Rightarrow> (double \<times> 'v) list" where
  "map_erase lt k [] = []"
| "map_erase lt k ((k', v') # m) =
     (if lt k' k then (k', v') # map_erase lt k m else if lt k k' then (k', v') # m else m)"

abbreviation (input) greater :: "double \<Rightarrow> double \<Rightarrow> bool" where
  "greater a b \<equiv> b < a"

abbreviation (input) lesser :: "double \<Rightarrow> double \<Rightarrow> bool" where
  "lesser a b \<equiv> a < b"

datatype row_action = ACTION_REMOVE | ACTION_OTHER int

record proto_row =
  pw_price :: string
  pw_action :: row_action
  pw_buy_size :: "string option"
  pw_sell_size :: "string option"

record book_maps =
  bids_map :: "(double \<times> order_book_row) list"
  asks_map :: "(double \<times> order_book_row) list"

definition empty_maps :: book_maps where
  "empty_maps = \<lparr>bids_map = [], asks_map = []\<rparr>"

definition put_level ::
  "(double \<Rightarrow> double \<Rightarrow> bool) \<Rightarrow> proto_row \<Rightarrow> string \<Rightarrow> (double \<times> order_book_row) list
     \<Rightarrow> (double \<times> order_book_row) list" where
  "put_level lt row sz m =
     (let price = decimal_to_double (pw_price row); qty = decimal_to_double sz
      in if pw_action row = ACTION_REMOVE \<or> qty < lit (1/10^9) then map_erase lt price m
         else map_put lt price \<lparr>row_price = price, row_quantity = cast_int 64 qty\<rparr> m)"

definition apply_row :: "book_maps \<Rightarrow> proto_row \<Rightarrow> book_maps" where
  "apply_row s row =
     (case pw_buy_size row of
        Some sz \<Rightarrow> s\<lparr>bids_map := put_level greater row sz (bids_map s)\<rparr>
      | None \<Rightarrow>
          (case pw_sell_size row of
             Some sz \<Rightarrow> s\<lparr>asks_map := put_level lesser row sz (asks_map s)\<rparr>
           | None \<Rightarrow> s))"

record book_response =
  bk_books :: "proto_row list list"
  bk_now :: time_point

definition on_book_response :: "string \<Rightarrow> book_maps \<Rightarrow> book_response \<Rightarrow> (order_book list \<times> book_maps) option" where
  "on_book_response sym_str s resp =
     (let s1 = foldl (foldl apply_row) s (bk_books resp);
          book = \<lparr>book_symbol = symbol_from_string sym_str, book_asks = map snd (asks_map s1),
                  book_bids = map snd (bids_map s1), book_ts = bk_now resp\<rparr>
      in Some ([book], s1))"

definition clear_maps :: "book_maps \<Rightarrow> book_maps" where
  "clear_maps s = s\<lparr>bids_map := [], asks_map := []\<rparr>"

definition subscribe_order_book ::
  "symbol \<Rightarrow> (nat \<Rightarrow> bool) \<Rightarrow> (book_response list \<times> distribution) list
     \<Rightarrow> (order_book list \<times> loop_status \<times> book_maps) option" where
  "subscribe_order_book sy stops conns =
     reconnect_loop stops (on_book_response (symbol_to_string sy)) clear_maps 0 empty_maps
       (new_backoff default_backoff_config) conns"

section \<open>Trades\<close>

datatype proto_side = SIDE_BUY | SIDE_SELL | SIDE_OTHER int

record proto_trade =
  tr_price :: string
  tr_size :: string
  tr_side :: proto_side
  tr_timestamp :: proto_timestamp

definition trade_of_proto :: "double \<Rightarrow> proto_trade \<Rightarrow> trade_event \<times> double" where
  "trade_of_proto last_price t =
     (let price = decimal_to_double (tr_price t); vol = decimal_to_double (tr_size t);
          is_buy = (case tr_side t of SIDE_BUY \<Rightarrow> True | SIDE_SELL \<Rightarrow> False | _ \<Rightarrow> last_price \<le> price)
      in (\<lparr>te_price = price, te_volume = vol, te_is_buy = is_buy, te_ts = ts_from_proto (tr_timestamp t)\<rparr>, price))"

fun on_trades_response :: "double \<Rightarrow> proto_trade list \<Rightarrow> trade_event list \<times> double" where
  "on_trades_response last_price [] = ([], last_price)"
| "on_trades_response last_price (t # ts) =
     (let (e, p1) = trade_of_proto last_price t; (es, p2) = on_trades_response p1 ts in (e # es, p2))"

definition subscribe_latest_trades ::
  "(nat \<Rightarrow> bool) \<Rightarrow> (proto_trade list list \<times> distribution) list
     \<Rightarrow> (trade_event list \<times> loop_status \<times> double) option" where
  "subscribe_latest_trades stops conns =
     reconnect_loop stops (\<lambda>p ts. Some (on_trades_response p ts)) (\<lambda>p. p) 0 (lit 0)
       (new_backoff default_backoff_config) conns"

section \<open>Book events\<close>

record prev_book =
  prev_bids :: "order_book_row list"
  prev_asks :: "order_book_row list"

definition level_size :: "order_book_row list \<Rightarrow> nat \<Rightarrow> double" where
  "level_size rows k = (if k < length rows then double_of_int (row_quantity (rows ! k)) else lit 0)"

definition level_price :: "prev_book \<Rightarrow> order_book \<Rightarrow> nat \<Rightarrow> double" where
  "level_price prev book k =
     (if k < length (book_bids book) then row_price (book_bids book ! k)
      else if k < length (book_asks book) then row_price (book_asks book ! k)
      else if k < length (prev_bids prev) then row_price (prev_bids prev ! k)
      else if k < length (prev_asks prev) then row_price (prev_asks prev ! k)
      else lit 0)"

definition level_event :: "prev_book \<Rightarrow> order_book \<Rightarrow> nat \<Rightarrow> book_level_event option" where
  "level_event prev book k =
     (let old_bid = level_size (prev_bids prev) k; old_ask = level_size (prev_asks prev) k;
          new_bid = level_size (book_bids book) k; new_ask = level_size (book_asks book) k
      in if deq old_bid new_bid \<and> deq old_ask new_ask then None
         else Some \<lparr>ble_level = int k, ble_price = level_price prev book k, old_bid_size = old_bid,
                    new_bid_size = new_bid, old_ask_size = old_ask, new_ask_size = new_ask,
                    ble_ts = book_ts book\<rparr>)"

definition on_book :: "prev_book \<Rightarrow> order_book \<Rightarrow> book_level_event list \<times> prev_book" where
  "on_book prev book =
     (List.map_filter (level_event prev book) [0..<kBookLevels],
      \<lparr>prev_bids = book_bids book, prev_asks = book_asks book\<rparr>)"

fun on_books :: "prev_book \<Rightarrow> order_book list \<Rightarrow> book_level_event list \<times> prev_book" where
  "on_books prev [] = ([], prev)"
| "on_books prev (b # bs) = (let (es, p1) = on_book prev b; (es', p2) = on_books p1 bs in (es @ es', p2))"

abbreviation empty_prev :: prev_book where
  "empty_prev \<equiv> \<lparr>prev_bids = [], prev_asks = []\<rparr>"

text \<open>\<open>subscribe_order_book\<close> with \<open>on_book\<close> as its callback.\<close>

definition subscribe_book_events ::
  "symbol \<Rightarrow> (nat \<Rightarrow> bool) \<Rightarrow> (book_response list \<times> distribution) list
     \<Rightarrow> (book_level_event list \<times> loop_status \<times> book_maps \<times> prev_book) option" where
  "subscribe_book_events sy stops conns =
     map_option (\<lambda>(books, st, s). let (es, prev) = on_books empty_prev books in (es, st, s, prev))
       (subscribe_order_book sy stops conns)"

section \<open>Sorted maps\<close>

text \<open>A strict order on the prices that are not NaN, and the maps that are sorted by it.\<close>

definition ordered :: "(double \<Rightarrow> double \<Rightarrow> bool) \<Rightarrow> (double \<times> 'v) list \<Rightarrow> bool" where
  "ordered lt m \<longleftrightarrow> sorted_wrt lt (map fst m) \<and> NaN \<notin> fst ` set m"

lemma ordered_simps [simp]:
  "ordered lt []"
  "ordered lt ((k, v) # m) \<longleftrightarrow> k \<noteq> NaN \<and> (\<forall>x \<in> fst ` set m. lt k x) \<and> ordered lt m"
  by (auto simp: ordered_def)

locale price_order =
  fixes lt :: "double \<Rightarrow> double \<Rightarrow> bool"
  assumes lt_irrefl: "\<not> lt x x"
    and lt_trans: "lt x y \<Longrightarrow> lt y z \<Longrightarrow> lt x z"
    and lt_total: "x \<noteq> NaN \<Longrightarrow> y \<noteq> NaN \<Longrightarrow> lt x y \<or> x = y \<or> lt y x"
begin

lemma lt_asym: "lt x y \<Longrightarrow> \<not> lt y x"
  using lt_trans lt_irrefl by blast

lemma set_put: "ordered lt m \<Longrightarrow> k \<noteq> NaN \<Longrightarrow> fst ` set (map_put lt k v m) = insert k (fst ` set m)"
proof (induction m)
  case (Cons e m)
  obtain k' v' where e: "e = (k', v')" by fastforce
  show ?case using Cons lt_total[of k k'] lt_asym[of k k'] lt_irrefl[of k] by (auto simp: e)
qed simp

lemma put_ordered: "ordered lt m \<Longrightarrow> k \<noteq> NaN \<Longrightarrow> ordered lt (map_put lt k v m)"
proof (induction m)
  case (Cons e m)
  obtain k' v' where e: "e = (k', v')" by fastforce
  show ?case using Cons set_put[of m k v] lt_total[of k k'] by (auto simp: e intro: lt_trans)
qed simp

lemma map_of_below: "ordered lt m \<Longrightarrow> (\<forall>x \<in> fst ` set m. lt k x) \<Longrightarrow> map_of m k = None"
  using lt_irrefl by (auto simp: map_of_eq_None_iff)

lemma map_of_put: "ordered lt m \<Longrightarrow> k \<noteq> NaN \<Longrightarrow> map_of (map_put lt k v m) = (map_of m)(k \<mapsto> v)"
proof (induction m)
  case (Cons e m)
  obtain k' v' where e: "e = (k', v')" by fastforce
  show ?case using Cons lt_total[of k k'] lt_irrefl by (auto simp: e fun_eq_iff)
qed auto

lemma set_erase: "set (map_erase lt k m) \<subseteq> set m"
  by (induction m) (auto split: if_splits)

lemma erase_ordered: "ordered lt m \<Longrightarrow> ordered lt (map_erase lt k m)"
  by (induction m) (use set_erase[of k] in \<open>fastforce split: if_splits\<close>)+

lemma map_of_erase: "ordered lt m \<Longrightarrow> k \<noteq> NaN \<Longrightarrow> map_of (map_erase lt k m) = (map_of m)(k := None)"
proof (induction m)
  case (Cons e m)
  obtain k' v' where e: "e = (k', v')" by fastforce
  have below: "map_of ((k', v') # m) k = None" if "lt k k'"
    using Cons.prems that lt_trans[OF that] by (intro map_of_below) (auto simp: e)
  consider (gt) "lt k' k" | (lt) "lt k k'" | (eq) "k' = k" using Cons.prems lt_total[of k k'] by (auto simp: e)
  then show ?case
  proof cases
    case gt
    then show ?thesis using Cons lt_irrefl by (auto simp: e fun_eq_iff)
  next
    case lt
    then show ?thesis using below lt_asym[OF lt] by (auto simp: e fun_upd_idem)
  next
    case eq
    then show ?thesis using Cons.prems lt_irrefl map_of_below[of m k] by (auto simp: e fun_upd_idem)
  qed
qed simp

end

interpretation asks_order: price_order lesser
proof
  fix x y :: double
  show "x \<noteq> NaN \<Longrightarrow> y \<noteq> NaN \<Longrightarrow> x < y \<or> x = y \<or> y < x" by (cases x; cases y) auto
qed (auto dest: double_less_imp_le intro: double_le_less_trans)

interpretation bids_order: price_order greater
proof
  fix x y :: double
  show "x \<noteq> NaN \<Longrightarrow> y \<noteq> NaN \<Longrightarrow> y < x \<or> x = y \<or> x < y" by (cases x; cases y) auto
qed (auto dest: double_less_imp_le intro: double_le_less_trans)

section \<open>The book is what the last deltas say\<close>

text \<open>The side a row is about, and whether it takes its level away.\<close>

definition row_size :: "bool \<Rightarrow> proto_row \<Rightarrow> string option" where
  "row_size buy row = (if buy then pw_buy_size row else if pw_buy_size row = None then pw_sell_size row else None)"

definition level_after :: "proto_row \<Rightarrow> string \<Rightarrow> int option" where
  "level_after row sz =
     (if pw_action row = ACTION_REMOVE \<or> decimal_to_double sz < lit (1/10^9) then None
      else Some (cast_int 64 (decimal_to_double sz)))"

text \<open>The quantity at a price after some rows: what the last row about that price and side says.\<close>

fun last_delta :: "bool \<Rightarrow> double \<Rightarrow> proto_row list \<Rightarrow> int option \<Rightarrow> int option" where
  "last_delta buy p [] old = old"
| "last_delta buy p (row # rows) old =
     last_delta buy p rows
       (case row_size buy row of
          Some sz \<Rightarrow> if decimal_to_double (pw_price row) = p then level_after row sz else old
        | None \<Rightarrow> old)"

text \<open>A side of the book: sorted, and every row under its own price.\<close>

definition side_ok :: "(double \<Rightarrow> double \<Rightarrow> bool) \<Rightarrow> (double \<times> order_book_row) list \<Rightarrow> bool" where
  "side_ok lt m \<longleftrightarrow> ordered lt m \<and> (\<forall>(p, r) \<in> set m. row_price r = p)"

definition quantity_at :: "(double \<times> order_book_row) list \<Rightarrow> double \<Rightarrow> int option" where
  "quantity_at m p = map_option row_quantity (map_of m p)"

definition priced :: "proto_row \<Rightarrow> bool" where
  "priced row \<longleftrightarrow> decimal_to_double (pw_price row) \<noteq> NaN"

context price_order
begin

lemma put_rows:
  assumes "ordered lt m" "k \<noteq> NaN" "\<forall>(p, r) \<in> set m. row_price r = p" "row_price v = k"
  shows "\<forall>(p, r) \<in> set (map_put lt k v m). row_price r = p"
  using assms
proof (induction m)
  case (Cons e m)
  obtain k' v' where e: "e = (k', v')" by fastforce
  show ?case using Cons lt_total[of k k'] by (auto simp: e)
qed simp

lemma put_side_ok: "side_ok lt m \<Longrightarrow> row_price v \<noteq> NaN \<Longrightarrow> side_ok lt (map_put lt (row_price v) v m)"
  using put_ordered[of m "row_price v" v] put_rows[of m "row_price v" v] by (simp add: side_ok_def)

lemma erase_side_ok: "side_ok lt m \<Longrightarrow> side_ok lt (map_erase lt k m)"
  by (auto simp: side_ok_def intro: erase_ordered dest!: set_erase[THEN subsetD])

lemma ordered_distinct: "ordered lt m \<Longrightarrow> distinct (map fst m)"
  by (induction m) (use lt_irrefl in \<open>force+\<close>)

lemma side_sorted: "side_ok lt m \<Longrightarrow> sorted_wrt lt (map row_price (map snd m))"
proof -
  assume m: "side_ok lt m"
  then have "map row_price (map snd m) = map fst m" by (auto simp: side_ok_def)
  with m show ?thesis by (simp only: side_ok_def ordered_def)
qed

lemma side_member:
  assumes "side_ok lt m"
  shows "(\<exists>r \<in> set (map snd m). row_price r = p \<and> row_quantity r = n) \<longleftrightarrow> quantity_at m p = Some n"
proof -
  have d: "distinct (map fst m)" and o: "\<forall>(p, r) \<in> set m. row_price r = p"
    using assms ordered_distinct by (auto simp: side_ok_def)
  have "quantity_at m p = Some n \<longleftrightarrow> (\<exists>r. (p, r) \<in> set m \<and> row_quantity r = n)"
    using d by (auto simp: quantity_at_def)
  also have "\<dots> \<longleftrightarrow> (\<exists>e \<in> set m. row_price (snd e) = p \<and> row_quantity (snd e) = n)"
    using o by (force intro: bexI)
  finally show ?thesis by simp
qed

lemma put_level_ok:
  assumes "side_ok lt m" "priced row"
  shows "side_ok lt (put_level lt row sz m)"
    and "quantity_at (put_level lt row sz m) p =
      (if decimal_to_double (pw_price row) = p then level_after row sz else quantity_at m p)"
proof -
  have m: "ordered lt m" "decimal_to_double (pw_price row) \<noteq> NaN"
    using assms by (simp_all add: side_ok_def priced_def)
  let ?r = "\<lparr>row_price = decimal_to_double (pw_price row), row_quantity = cast_int 64 (decimal_to_double sz)\<rparr>"
  show "side_ok lt (put_level lt row sz m)"
    using erase_side_ok[OF assms(1)] put_side_ok[OF assms(1), of ?r] m(2) by (simp add: put_level_def Let_def)
  show "quantity_at (put_level lt row sz m) p =
      (if decimal_to_double (pw_price row) = p then level_after row sz else quantity_at m p)"
    using map_of_put[OF m] map_of_erase[OF m]
    by (auto simp: quantity_at_def put_level_def level_after_def Let_def)
qed

end

text \<open>Both sides of the book.\<close>

definition maps_ok :: "book_maps \<Rightarrow> bool" where
  "maps_ok s \<longleftrightarrow> side_ok greater (bids_map s) \<and> side_ok lesser (asks_map s)"

lemma maps_ok_empty [simp]: "maps_ok empty_maps" "maps_ok (clear_maps s)"
  by (simp_all add: maps_ok_def empty_maps_def clear_maps_def side_ok_def)

lemma apply_row_ok:
  assumes "maps_ok s" "priced row"
  shows "maps_ok (apply_row s row)"
    and "last_delta True p rows (quantity_at (bids_map (apply_row s row)) p)
       = last_delta True p (row # rows) (quantity_at (bids_map s) p)"
    and "last_delta False p rows (quantity_at (asks_map (apply_row s row)) p)
       = last_delta False p (row # rows) (quantity_at (asks_map s) p)"
  using assms bids_order.put_level_ok[of "bids_map s" row] asks_order.put_level_ok[of "asks_map s" row]
  by (auto simp: maps_ok_def apply_row_def row_size_def split: option.split)

lemma apply_rows_ok:
  assumes "maps_ok s" "list_all priced rows"
  shows "maps_ok (foldl apply_row s rows)"
    and "quantity_at (bids_map (foldl apply_row s rows)) p = last_delta True p rows (quantity_at (bids_map s) p)"
    and "quantity_at (asks_map (foldl apply_row s rows)) p = last_delta False p rows (quantity_at (asks_map s) p)"
  using assms
proof (induction rows arbitrary: s)
  case (Cons row rows)
  {
    case 1
    then show ?case using Cons.IH(1) apply_row_ok(1) by simp
  next
    case 2
    then show ?case using Cons.IH(2)[OF apply_row_ok(1)] apply_row_ok(2)[of s row p rows] by simp
  next
    case 3
    then show ?case using Cons.IH(3)[OF apply_row_ok(1)] apply_row_ok(3)[of s row p rows] by simp
  }
qed simp_all

lemma foldl_foldl: "foldl (foldl f) s xss = foldl f s (concat xss)"
  by (induction xss arbitrary: s) auto

text \<open>All rows of the messages of a connection.\<close>

definition rows_of :: "book_response list \<Rightarrow> proto_row list" where
  "rows_of msgs = concat (map (\<lambda>m. concat (bk_books m)) msgs)"

definition book_of :: "string \<Rightarrow> book_maps \<Rightarrow> time_point \<Rightarrow> order_book" where
  "book_of sym_str s now = \<lparr>book_symbol = symbol_from_string sym_str, book_asks = map snd (asks_map s),
     book_bids = map snd (bids_map s), book_ts = now\<rparr>"

lemma on_book_response_eq:
  "on_book_response sym_str s resp =
     (let s1 = foldl apply_row s (rows_of [resp]) in Some ([book_of sym_str s1 (bk_now resp)], s1))"
  by (simp add: on_book_response_def foldl_foldl rows_of_def book_of_def)

lemma feed_books:
  assumes "feed (on_book_response sym_str) s (msgs @ [m]) = (books, s1)"
  shows "s1 = foldl apply_row s (rows_of (msgs @ [m])) \<and> last books = book_of sym_str s1 (bk_now m)
    \<and> length books = Suc (length msgs)"
  using assms
proof (induction msgs arbitrary: s books)
  case Nil
  then show ?case by (auto simp: on_book_response_eq Let_def)
next
  case (Cons x xs)
  let ?s = "foldl apply_row s (rows_of [x])"
  obtain bs where f: "feed (on_book_response sym_str) ?s (xs @ [m]) = (bs, s1)"
    "books = book_of sym_str ?s (bk_now x) # bs"
    using Cons.prems on_book_response_eq[of sym_str s x] by (auto simp: Let_def split: prod.splits)
  have "rows_of ((x # xs) @ [m]) = rows_of [x] @ rows_of (xs @ [m])" by (simp add: rows_of_def)
  with Cons.IH[OF f(1)] f(2) show ?case by auto
qed

text \<open>Every book handed to the callback has bids in falling and asks in rising order of price.\<close>

definition book_sorted :: "order_book \<Rightarrow> bool" where
  "book_sorted b \<longleftrightarrow> sorted_wrt greater (map row_price (book_bids b)) \<and> sorted_wrt lesser (map row_price (book_asks b))"

lemma book_of_sorted: "maps_ok s \<Longrightarrow> book_sorted (book_of sym_str s now)"
  using bids_order.side_sorted asks_order.side_sorted by (simp add: maps_ok_def book_sorted_def book_of_def)

interpretation book_stream: stream_consumer "on_book_response sym_str" clear_maps maps_ok
  "\<lambda>m. list_all priced (rows_of [m])" book_sorted
proof
  fix s m out s1
  assume a: "maps_ok s" "list_all priced (rows_of [m])" "on_book_response sym_str s m = Some (out, s1)"
  have "s1 = foldl apply_row s (rows_of [m])" "out = [book_of sym_str s1 (bk_now m)]"
    using a(3) by (auto simp: on_book_response_eq Let_def)
  with apply_rows_ok(1)[OF a(1,2)] book_of_sorted show "maps_ok s1 \<and> list_all book_sorted out" by simp
qed simp

section \<open>Events of the book\<close>

lemma level_size_not_NaN [simp]: "level_size rows k \<noteq> NaN"
  by (simp add: level_size_def)

text \<open>
  The sizes a consumer of the events knows: each event replaces the sizes of its level. An event
  fits when the old sizes it carries are the ones known.
\<close>

type_synonym level_table = "int \<Rightarrow> double \<times> double"

definition apply_event :: "level_table \<Rightarrow> book_level_event \<Rightarrow> level_table" where
  "apply_event t e = t(ble_level e := (new_bid_size e, new_ask_size e))"

fun events_fit :: "level_table \<Rightarrow> book_level_event list \<Rightarrow> bool" where
  "events_fit t [] = True"
| "events_fit t (e # es) = (t (ble_level e) = (old_bid_size e, old_ask_size e) \<and> events_fit (apply_event t e) es)"

text \<open>The sizes of the first levels of a book; levels beyond them are not tracked.\<close>

definition table_of :: "prev_book \<Rightarrow> level_table" where
  "table_of b l = (if 0 \<le> l \<and> l < int kBookLevels
                   then (level_size (prev_bids b) (nat l), level_size (prev_asks b) (nat l)) else (Fin 0, Fin 0))"

lemma events_fit_append: "events_fit t (es @ es') \<longleftrightarrow> events_fit t es \<and> events_fit (foldl apply_event t es) es'"
  by (induction es arbitrary: t) auto

lemma level_event_cases:
  assumes "t (int k) = (level_size (prev_bids prev) k, level_size (prev_asks prev) k)"
    and "es = (case level_event prev book k of None \<Rightarrow> [] | Some e \<Rightarrow> [e])"
  shows "events_fit t es"
    and "foldl apply_event t es = t(int k := (level_size (book_bids book) k, level_size (book_asks book) k))"
  using assms by (auto simp: level_event_def Let_def deq_iff apply_event_def fun_upd_idem)

lemma map_filter_snoc:
  "List.map_filter f (xs @ [x]) = List.map_filter f xs @ (case f x of None \<Rightarrow> [] | Some y \<Rightarrow> [y])"
  by (simp add: List.map_filter_def split: option.split)

lemma level_events_prefix:
  assumes "\<forall>k < kBookLevels. t (int k) = (level_size (prev_bids prev) k, level_size (prev_asks prev) k)"
    and "n \<le> kBookLevels" and "es = List.map_filter (level_event prev book) [0..<n]"
  shows "events_fit t es \<and> foldl apply_event t es =
    (\<lambda>l. if 0 \<le> l \<and> l < int n then (level_size (book_bids book) (nat l), level_size (book_asks book) (nat l)) else t l)"
  using assms(2,3)
proof (induction n arbitrary: es)
  case 0
  then show ?case by (auto simp: List.map_filter_def fun_eq_iff)
next
  case (Suc n)
  let ?es = "List.map_filter (level_event prev book) [0..<n]"
  let ?e = "case level_event prev book n of None \<Rightarrow> [] | Some e \<Rightarrow> [e]"
  have es: "es = ?es @ ?e" using Suc.prems(2) by (simp add: map_filter_snoc)
  have ih: "events_fit t ?es" "foldl apply_event t ?es =
    (\<lambda>l. if 0 \<le> l \<and> l < int n then (level_size (book_bids book) (nat l), level_size (book_asks book) (nat l)) else t l)"
    using Suc.IH[of ?es] Suc.prems(1) by auto
  have "foldl apply_event t ?es (int n) = (level_size (prev_bids prev) n, level_size (prev_asks prev) n)"
    using ih(2) assms(1) Suc.prems(1) by simp
  note l = level_event_cases[of "foldl apply_event t ?es" n prev ?e book, OF this refl]
  show ?case unfolding es events_fit_append foldl_append l(2)
    using ih l(1) by (auto simp: fun_eq_iff)
qed

lemma on_book_events:
  assumes "on_book prev book = (es, prev')"
  shows "events_fit (table_of prev) es \<and> foldl apply_event (table_of prev) es = table_of prev'"
proof -
  have "\<forall>k < kBookLevels. table_of prev (int k) = (level_size (prev_bids prev) k, level_size (prev_asks prev) k)"
    by (simp add: table_of_def)
  note l = level_events_prefix[OF this order_refl refl, of book]
  have "es = List.map_filter (level_event prev book) [0..<kBookLevels]"
    and p: "prev' = \<lparr>prev_bids = book_bids book, prev_asks = book_asks book\<rparr>"
    using assms by (simp_all only: on_book_def prod.inject)
  with l show ?thesis unfolding p by (simp add: table_of_def[abs_def] cong: if_cong)
qed

lemma on_books_events:
  "on_books prev books = (es, prev') \<Longrightarrow>
   events_fit (table_of prev) es \<and> foldl apply_event (table_of prev) es = table_of prev'"
proof (induction books arbitrary: prev es)
  case (Cons b bs)
  obtain e1 p1 where b: "on_book prev b = (e1, p1)" by fastforce
  obtain e2 where bs: "on_books p1 bs = (e2, prev')" "es = e1 @ e2"
    using Cons.prems b by (auto split: prod.splits)
  show ?case using on_book_events[OF b] Cons.IH[OF bs(1)] bs(2) by (simp add: events_fit_append)
qed simp

text \<open>What every event of the stream satisfies.\<close>

definition event_ok :: "book_level_event \<Rightarrow> bool" where
  "event_ok e \<longleftrightarrow> 0 \<le> ble_level e \<and> ble_level e < int kBookLevels
     \<and> old_bid_size e \<noteq> NaN \<and> new_bid_size e \<noteq> NaN \<and> old_ask_size e \<noteq> NaN \<and> new_ask_size e \<noteq> NaN
     \<and> (old_bid_size e \<noteq> new_bid_size e \<or> old_ask_size e \<noteq> new_ask_size e)"

lemma on_book_event_ok: "on_book prev book = (es, prev') \<Longrightarrow> list_all event_ok es"
  by (auto simp: on_book_def List.map_filter_def list_all_iff event_ok_def level_event_def Let_def deq_iff
      split: if_splits)

lemma on_books_event_ok: "on_books prev books = (es, prev') \<Longrightarrow> list_all event_ok es"
proof (induction books arbitrary: prev es)
  case (Cons b bs)
  then show ?case using on_book_event_ok by (fastforce split: prod.splits)
qed simp

lemma book_events_books:
  assumes "subscribe_book_events sy stops conns = Some (es, st, s, prev)"
  obtains books where "on_books empty_prev books = (es, prev)" "subscribe_order_book sy stops conns = Some (books, st, s)"
proof -
  obtain books st' s' where b: "subscribe_order_book sy stops conns = Some (books, st', s')"
    using assms by (cases "subscribe_order_book sy stops conns") (auto simp: subscribe_book_events_def)
  obtain es' prev' where "on_books empty_prev books = (es', prev')" by fastforce
  with b assms that show ?thesis by (simp add: subscribe_book_events_def)
qed

section \<open>Properties\<close>

lemma default_tick [simp]: "0 < bo_tick (bo_cfg (new_backoff default_backoff_config))"
  by (simp add: new_backoff_def default_backoff_config_def)

text \<open>
  The tick rule has nothing to compare the first trade with: without a side it counts as a buy,
  whatever its price.
\<close>

lemma first_unsided_trade_is_buy:
  "tr_side t = SIDE_OTHER n \<Longrightarrow> Fin 0 \<le> decimal_to_double (tr_price t) \<Longrightarrow> te_is_buy (fst (trade_of_proto (lit 0) t))"
  by (simp add: trade_of_proto_def Let_def)

text \<open>The delay in the log is the one the backoff computes, before its jitter.\<close>

lemma reconnect_delay_is_nominal: "reconnect_delay_ms n = nominal_delay n"
proof -
  let ?b = "\<lparr>bo_cfg = default_backoff_config, attempt = n\<rparr>"
  have "std_min (lit 500 * double_of_int (push_bit (nat (min n 6)) 1)) (lit 30000) = capped_delay ?b"
    by (simp add: capped_delay_def default_backoff_config_def double_of_int_exact)
  then show ?thesis
    using capped_delay_default[of ?b] cast_int_Fin_int[of 32 "nominal_delay n"] nominal_delay_range[of n]
    by (simp add: reconnect_delay_ms_def)
qed

text \<open>
  An instrument's name can be read back. \<open>symbol_from_string\<close> inverts \<open>Symbol::to_string\<close>
  when the board holds no \<open>@\<close>, and \<open>to_string\<close> inverts it on every text with an \<open>@\<close>; so
  the quotes and bars of a subscription carry the symbol it was made for.
\<close>

lemma symbol_round_trip:
  "(CHR ''@'' \<notin> set (security_board sy) \<longrightarrow> symbol_from_string (symbol_to_string sy) = sy)
   \<and> (CHR ''@'' \<in> set t \<longrightarrow> symbol_to_string (symbol_from_string t) = t)"
proof (intro conjI impI)
  assume "CHR ''@'' \<notin> set (security_board sy)"
  from rfind_char_append[OF this, of "security_code sy"] show "symbol_from_string (symbol_to_string sy) = sy"
    by (simp add: symbol_from_string_def symbol_to_string_def)
next
  assume "CHR ''@'' \<in> set t"
  then obtain a b where t: "t = a @ CHR ''@'' # b" "CHR ''@'' \<notin> set b"
    by (metis split_list_last)
  then show "symbol_to_string (symbol_from_string t) = t"
    using rfind_char_append[OF t(2), of a] by (simp add: symbol_from_string_def symbol_to_string_def)
qed

text \<open>
  C31: the book of a connection is what the last deltas say. After any messages on a connection
  that started with empty maps, the book handed to the callback has quantity \<open>n\<close> at price \<open>p\<close> on a
  side exactly when the last row about that price and side says so, and no level at \<open>p\<close> when that
  row removes it, carries a size below \<open>1e-9\<close>, or no row was about it; the bids fall and the asks
  rise strictly in price. Prices must not be NaN.
\<close>

theorem order_book_is_last_deltas:
  assumes "list_all priced (rows_of (msgs @ [m]))"
    and "feed (on_book_response sym_str) empty_maps (msgs @ [m]) = (books, s1)"
  shows "(\<exists>r. r \<in> set (book_bids (last books)) \<and> row_price r = p \<and> row_quantity r = n)
      = (last_delta True p (rows_of (msgs @ [m])) None = Some n)
    \<and> (\<exists>r. r \<in> set (book_asks (last books)) \<and> row_price r = p \<and> row_quantity r = n)
      = (last_delta False p (rows_of (msgs @ [m])) None = Some n)
    \<and> book_sorted (last books)"
proof -
  let ?rows = "rows_of (msgs @ [m])"
  note f = feed_books[OF assms(2)]
  have ok: "side_ok greater (bids_map s1)" "side_ok lesser (asks_map s1)"
    using apply_rows_ok(1)[OF maps_ok_empty(1) assms(1)] f by (simp_all add: maps_ok_def)
  have q: "quantity_at (bids_map s1) p = last_delta True p ?rows None"
    "quantity_at (asks_map s1) p = last_delta False p ?rows None"
    using apply_rows_ok(2,3)[OF maps_ok_empty(1) assms(1)] f by (simp_all add: empty_maps_def quantity_at_def)
  have b: "set (book_bids (last books)) = set (map snd (bids_map s1))"
    "set (book_asks (last books)) = set (map snd (asks_map s1))"
    using f by (simp_all add: book_of_def)
  show ?thesis
    using bids_order.side_member[OF ok(1), of p n] asks_order.side_member[OF ok(2), of p n]
      book_of_sorted[of s1] f ok unfolding b q Bex_def by (simp add: maps_ok_def)
qed

text \<open>A subscription that nobody cancels.\<close>

lemma uncancelled: "latched (\<lambda>_. False)"
  by (simp add: latched_def)

lemma uncancelled_books:
  obtains books st s where "subscribe_order_book sy (\<lambda>_. False) conns = Some (books, st, s)"
    "feed_all (on_book_response (symbol_to_string sy)) clear_maps empty_maps (map fst conns) = (books, s)"
  using reconnect_loop_spec[OF uncancelled default_tick, of "on_book_response (symbol_to_string sy)" clear_maps 0
      empty_maps conns] that unfolding subscribe_order_book_def by auto

definition bid_row :: "string \<Rightarrow> string \<Rightarrow> proto_row" where
  "bid_row p n = \<lparr>pw_price = p, pw_action = ACTION_OTHER 1, pw_buy_size = Some n, pw_sell_size = None\<rparr>"

lemma decimal_samples [simp]:
  "decimal_to_double ''90'' = Fin 90" "decimal_to_double ''7'' = Fin 7"
proof -
  have "nat_to_string 90 = ''90''" "nat_to_string 7 = ''7''" by code_simp+
  then show "decimal_to_double ''90'' = Fin 90" "decimal_to_double ''7'' = Fin 7"
    using decimal_to_double_digits[of 90] decimal_to_double_digits[of 7] by simp_all
qed

lemma sample_level [simp]: "level_after (bid_row p ''7'') ''7'' = Some 7"
proof -
  have "cast_int 64 (Fin (of_int 7)) = 7" by (rule cast_int_Fin_int) simp_all
  moreover have "\<not> Fin 7 < lit (1/10^9)"
    using lit_nano(2) by (cases "lit (1/10^9)") auto
  ultimately show ?thesis by (simp add: level_after_def bid_row_def)
qed

abbreviation sample_message :: book_response where
  "sample_message \<equiv> \<lparr>bk_books = [[bid_row ''90'' ''7'']], bk_now = 1\<rparr>"

lemma sample_rows: "rows_of [sample_message] = [bid_row ''90'' ''7'']" "priced (bid_row ''90'' ''7'')"
  by (simp_all add: rows_of_def priced_def bid_row_def)

theorem order_book_is_last_deltas_witness:
  "\<exists>r. r \<in> set (book_bids (last (fst (feed (on_book_response ''SiM6@RTSX'') empty_maps [sample_message]))))
     \<and> row_price r = Fin 90 \<and> row_quantity r = 7"
proof -
  obtain books s1 where f: "feed (on_book_response ''SiM6@RTSX'') empty_maps ([] @ [sample_message]) = (books, s1)"
    by fastforce
  have "last_delta True (Fin 90) (rows_of ([] @ [sample_message])) None = Some 7"
    unfolding append.simps sample_rows using sample_level[of "''90''"] by (simp add: row_size_def bid_row_def)
  with order_book_is_last_deltas[OF _ f, of "Fin 90" 7] show ?thesis using f by (simp add: sample_rows)
qed

text \<open>
  In every order book a subscription delivers, across any number of reconnects and until it is
  cancelled, the bids fall and the asks rise strictly in price. Prices must not be NaN.
\<close>

lemma delivered_books_sorted:
  assumes "latched stops" and "list_all (\<lambda>c. list_all (\<lambda>m. list_all priced (rows_of [m])) (fst c)) conns"
    and "subscribe_order_book sy stops conns = Some (books, st, s)"
  shows "list_all book_sorted books"
  using book_stream.callbacks_good[OF maps_ok_empty(1) assms(1) default_tick assms(2)] assms(3)
  unfolding subscribe_order_book_def .

text \<open>
  C32: the events of the book rebuild the book. Whatever the connections deliver, also across
  reconnects, the old sizes of every event are the new sizes of the previous event of its level
  (zero at first), and replaying all events gives the sizes of the first five levels of the last
  book delivered.
\<close>

theorem book_events_rebuild_book:
  assumes "subscribe_book_events sy stops conns = Some (es, st, s, prev)"
  shows "events_fit (\<lambda>_. (Fin 0, Fin 0)) es \<and> foldl apply_event (\<lambda>_. (Fin 0, Fin 0)) es = table_of prev"
proof -
  obtain books where "on_books empty_prev books = (es, prev)" by (rule book_events_books[OF assms])
  moreover have "table_of empty_prev = (\<lambda>_. (Fin 0, Fin 0))" by (auto simp: table_of_def level_size_def)
  ultimately show ?thesis using on_books_events[of empty_prev books es prev] by simp
qed

lemma sample_events:
  "\<exists>es st s prev. subscribe_book_events sy (\<lambda>_. False) [([sample_message], \<lambda>a b. a)] = Some (es, st, s, prev)
     \<and> table_of prev 0 = (Fin 7, Fin 0) \<and> length es = 1"
proof -
  obtain books st s where r: "subscribe_order_book sy (\<lambda>_. False) [([sample_message], \<lambda>a b. a)] = Some (books, st, s)"
    "feed_all (on_book_response (symbol_to_string sy)) clear_maps empty_maps
       (map fst [([sample_message], \<lambda>a b :: double. a :: double)]) = (books, s)"
    by (rule uncancelled_books)
  define s2 where "s2 = foldl apply_row empty_maps [bid_row ''90'' ''7'']"
  define bk where "bk = book_of (symbol_to_string sy) s2 1"
  have c: "cast_int 64 (Fin (of_int 7)) = 7" by (rule cast_int_Fin_int) simp_all
  have n: "\<not> Fin 7 < lit (1/10^9)" using lit_nano(2) by (cases "lit (1/10^9)") auto
  have b: "books = [bk]"
    using r(2) on_book_response_eq[of "symbol_to_string sy" empty_maps sample_message]
    by (simp add: sample_rows Let_def bk_def s2_def)
  have m: "book_bids bk = [\<lparr>row_price = Fin 90, row_quantity = 7\<rparr>]" "book_asks bk = []"
    using c n by (simp_all add: bk_def book_of_def s2_def apply_row_def bid_row_def put_level_def empty_maps_def Let_def)
  have d: "double_of_int 7 = Fin 7" using double_of_int_exact[of 7] by simp
  have l: "level_size (book_bids bk) k = (if k = 0 then Fin 7 else Fin 0)" "level_size (book_asks bk) k = Fin 0"
    "level_size [] k = Fin 0" for k by (simp_all add: level_size_def m d)
  obtain es prev where e: "on_books empty_prev books = (es, prev)" by fastforce
  have le: "level_event empty_prev bk k = None \<longleftrightarrow> k \<noteq> 0" for k
    by (simp add: level_event_def l deq_iff Let_def)
  have up: "[0..<kBookLevels] = [0, 1, 2, 3, 4]" by code_simp
  have "es = List.map_filter (level_event empty_prev bk) [0, 1, 2, 3, 4]" "prev_bids prev = book_bids bk"
    "prev_asks prev = book_asks bk"
    using e by (simp_all only: b on_books.simps on_book_def up) auto
  moreover have "length (List.map_filter (level_event empty_prev bk) [0, 1, 2, 3, 4]) = 1"
    by (simp add: List.map_filter_def le)
  moreover have "table_of prev 0 = (Fin 7, Fin 0)" using calculation(2,3) by (simp add: table_of_def l)
  ultimately show ?thesis using r(1) e by (simp add: subscribe_book_events_def)
qed

theorem book_events_rebuild_book_witness:
  "\<exists>es st s prev. subscribe_book_events \<lparr>security_code = ''SiM6'', security_board = ''RTSX''\<rparr> (\<lambda>_. False)
     [([sample_message], \<lambda>a b. a)] = Some (es, st, s, prev)
   \<and> foldl apply_event (\<lambda>_. (Fin 0, Fin 0)) es 0 = (Fin 7, Fin 0)"
  using sample_events[of "\<lparr>security_code = ''SiM6'', security_board = ''RTSX''\<rparr>"]
  by (metis book_events_rebuild_book)

text \<open>
  C33: every event a book subscription delivers is one the strategy can use: its level is one of
  the five the strategy keeps, no size is NaN, and at least one of the two sizes has changed.
\<close>

theorem book_events_well_formed:
  assumes "subscribe_book_events sy stops conns = Some (es, st, s, prev)"
  shows "list_all event_ok es"
  by (rule book_events_books[OF assms]) (rule on_books_event_ok)

theorem book_events_well_formed_witness:
  "\<exists>es st s prev. subscribe_book_events \<lparr>security_code = ''SiM6'', security_board = ''RTSX''\<rparr> (\<lambda>_. False)
     [([sample_message], \<lambda>a b. a)] = Some (es, st, s, prev) \<and> length es = 1 \<and> list_all event_ok es"
  using sample_events[of "\<lparr>security_code = ''SiM6'', security_board = ''RTSX''\<rparr>"]
  by (auto dest: book_events_well_formed)

text \<open>
  C34: a subscription's thread hands over what the broker sends, in order, and ends when it is
  cancelled. For every handler: the thread never hangs in a wait; its callbacks are an initial
  part of those for all messages of all connections, and all of them while the flag is not set;
  and once load number \<open>n\<close> of the stop flag sees it set, the thread has ended before its
  connection number \<open>n + 1\<close>.
\<close>

theorem subscription_delivers_and_stops:
  assumes "latched stops"
  shows "\<exists>outs st s'. reconnect_loop stops h clear 0 s (new_backoff default_backoff_config) conns = Some (outs, st, s')
    \<and> prefix outs (fst (feed_all h clear s (map fst conns)))
    \<and> ((\<forall>k. \<not> stops k) \<longrightarrow> feed_all h clear s (map fst conns) = (outs, s'))
    \<and> (stops n \<and> n < length conns \<longrightarrow> st = LoopStopped)"
  using reconnect_loop_spec[OF assms default_tick, of h clear 0 s conns n] by simp

theorem subscription_delivers_and_stops_witness:
  "\<exists>outs st s'. reconnect_loop (\<lambda>i. 1 \<le> i) (on_book_response ''SiM6@RTSX'') clear_maps 0 empty_maps
     (new_backoff default_backoff_config) [([sample_message], \<lambda>a b. a), ([], \<lambda>a b. a)] = Some (outs, st, s')
   \<and> st = LoopStopped"
  using subscription_delivers_and_stops[of "\<lambda>i. 1 \<le> i" "on_book_response ''SiM6@RTSX''" clear_maps empty_maps
      "[([sample_message], \<lambda>a b. a), ([], \<lambda>a b. a)]" 1]
  by (force simp: latched_def)

end
