(* ===== verification/Token_Manager.thy ===== *)
theory Token_Manager
  imports Interfaces Stream_Loop
begin

text \<open>
  \<open>src/auth/token_manager.hpp\<close> and \<open>token_manager.cpp\<close>: the login, the token every call carries and
  the thread that renews it. The broker's \<open>Auth\<close> and \<open>TokenDetails\<close> are parameters; a channel is
  what \<open>grpc::CreateChannel\<close> is called with. The renewal thread runs on what its connections
  deliver, as in \<open>Stream_Loop\<close>.
\<close>

section \<open>State and operations\<close>

record token_manager_config =
  endpoint :: string
  use_tls :: bool

definition default_token_config :: token_manager_config where
  "default_token_config = \<lparr>endpoint = ''api.finam.ru:443'', use_tls = True\<rparr>"

datatype credentials = SslCredentials | InsecureChannelCredentials

datatype channel = Channel string credentials

record token_manager =
  tm_cfg :: token_manager_config
  tm_channel :: "channel option"
  tm_jwt :: string
  account_ids :: "string list"
  tm_stop :: bool
  renewal_thread :: "string option"

text \<open>\<open>renewal_thread\<close> is the secret of the running thread, \<open>None\<close> when it is not joinable.\<close>

definition new_token_manager :: "token_manager_config \<Rightarrow> token_manager" where
  "new_token_manager cfg = \<lparr>tm_cfg = cfg, tm_channel = None, tm_jwt = [], account_ids = [], tm_stop = False,
                            renewal_thread = None\<rparr>"

definition make_channel :: "token_manager_config \<Rightarrow> channel" where
  "make_channel cfg =
     (if use_tls cfg then Channel (endpoint cfg) SslCredentials
      else Channel (endpoint cfg) InsecureChannelCredentials)"

record auth_service =
  svc_auth :: "channel \<Rightarrow> string \<Rightarrow> string + string"
  svc_token_details :: "channel \<Rightarrow> string \<times> string \<Rightarrow> string \<Rightarrow> string + string list"

definition store_jwt :: "token_manager \<Rightarrow> string \<Rightarrow> token_manager" where
  "store_jwt tm jwt = tm\<lparr>tm_jwt := jwt\<rparr>"

text \<open>
  \<open>init\<close>; the result \<open>None\<close> is \<open>std::terminate\<close>, which assigning to a running \<open>std::thread\<close> calls.
\<close>

definition init :: "auth_service \<Rightarrow> token_manager \<Rightarrow> string \<Rightarrow> unit result option \<times> token_manager" where
  "init svc tm secret =
     (let ch = make_channel (tm_cfg tm); tm1 = tm\<lparr>tm_channel := Some ch\<rparr>
      in case svc_auth svc ch secret of
           Inl msg \<Rightarrow> (Some (Inl (mk_error RpcError msg)), tm1)
         | Inr token \<Rightarrow>
             (let tm2 = store_jwt tm1 token
              in case svc_token_details svc ch (''authorization'', ''Bearer '' @ token) token of
                   Inl msg \<Rightarrow> (Some (Inl (mk_error RpcError msg)), tm2)
                 | Inr ids \<Rightarrow>
                     (let tm3 = tm2\<lparr>account_ids := account_ids tm2 @ ids\<rparr>
                      in if account_ids tm3 = [] then (Some (Inl (mk_error InvalidArgument ''no account_ids'')), tm3)
                         else if renewal_thread tm3 \<noteq> None then (None, tm3)
                         else (Some (Inr ()), tm3\<lparr>renewal_thread := Some secret\<rparr>))))"

text \<open>\<open>primary_account_id\<close>; \<open>None\<close> is the \<open>logic_error\<close> it throws.\<close>

definition primary_account_id :: "token_manager \<Rightarrow> string option" where
  "primary_account_id tm = (case account_ids tm of [] \<Rightarrow> None | a # _ \<Rightarrow> Some a)"

definition tm_shutdown :: "token_manager \<Rightarrow> token_manager" where
  "tm_shutdown tm = tm\<lparr>tm_stop := True, renewal_thread := None\<rparr>"

definition secure_zero :: "string \<Rightarrow> string" where
  "secure_zero s = foldl (\<lambda>p i. p[i := CHR 0x00]) s [0..<length s]"

definition on_renewal :: "token_manager \<Rightarrow> string \<Rightarrow> (unit list \<times> token_manager) option" where
  "on_renewal tm token = Some ([], if token \<noteq> [] then store_jwt tm token else tm)"

text \<open>The renewal thread: its status, the manager and the thread's copy of the secret.\<close>

fun run_renewal_stream ::
  "(nat \<Rightarrow> bool) \<Rightarrow> nat \<Rightarrow> token_manager \<Rightarrow> string \<Rightarrow> string list list \<Rightarrow> loop_status \<times> token_manager \<times> string" where
  "run_renewal_stream stops i tm secret [] = (LoopRunning, tm, secret)"
| "run_renewal_stream stops i tm secret (ms # cs) =
     (if stops i then (LoopStopped, tm, secure_zero secret)
      else let (_, j, tm1) = read_loop stops on_renewal (Suc i) tm ms
           in if stops j then (LoopStopped, tm1, secure_zero secret)
              else run_renewal_stream stops (Suc j) tm1 secret cs)"

section \<open>Login\<close>

lemma secure_zero_eq: "secure_zero s = replicate (length s) (CHR 0x00)"
proof -
  have "foldl (\<lambda>p i. p[i := CHR 0x00]) s [0..<n] = replicate n (CHR 0x00) @ drop n s" if "n \<le> length s" for n
    using that
  proof (induction n)
    case (Suc n)
    then show ?case
      by (simp add: list_update_append drop_update_swap[symmetric] upd_conv_take_nth_drop)
        (simp add: Cons_nth_drop_Suc[symmetric] replicate_append_same[symmetric])
  qed simp
  from this[of "length s"] show ?thesis by (simp add: secure_zero_def)
qed

text \<open>What a manager that has logged in satisfies, and keeps while tokens are renewed.\<close>

definition logged_in :: "string list \<Rightarrow> string set \<Rightarrow> token_manager \<Rightarrow> bool" where
  "logged_in ids tokens tm \<longleftrightarrow> account_ids tm = ids \<and> tm_jwt tm \<in> tokens"

interpretation token_stream: stream_consumer on_renewal "\<lambda>tm. tm" "logged_in ids tokens"
  "\<lambda>t. t = [] \<or> t \<in> tokens" "\<lambda>_. True"
  by unfold_locales (auto simp: on_renewal_def logged_in_def store_jwt_def list_all_iff)

lemma run_renewal_logged_in:
  assumes "logged_in ids tokens tm" "\<forall>ms \<in> set cs. \<forall>t \<in> set ms. t = [] \<or> t \<in> tokens"
    and "run_renewal_stream stops i tm secret cs = (st, tm', sec')"
  shows "logged_in ids tokens tm'"
  using assms
proof (induction cs arbitrary: i tm)
  case (Cons ms cs)
  obtain us j tm1 where r: "read_loop stops on_renewal (Suc i) tm ms = (us, j, tm1)" by (metis prod_cases3)
  have "logged_in ids tokens tm1"
    using token_stream.read_loop_inv[OF Cons.prems(1) _ r] Cons.prems(2) by (simp add: list_all_iff)
  then show ?case using Cons r by (auto split: if_splits)
qed simp

lemma run_renewal_stops:
  assumes "latched stops" "stops n" "n - i < length cs"
    and "run_renewal_stream stops i tm secret cs = (st, tm', sec')"
  shows "st = LoopStopped \<and> sec' = secure_zero secret"
  using assms(3,4)
proof (induction cs arbitrary: i tm)
  case (Cons ms cs)
  obtain us j tm1 where r: "read_loop stops on_renewal (Suc i) tm ms = (us, j, tm1)" by (metis prod_cases3)
  have j: "Suc i < j"
    using token_stream.read_loop_inv[of "account_ids tm" UNIV tm ms stops "Suc i", OF _ _ r]
    by (simp add: logged_in_def list_all_iff)
  show ?case
  proof (cases "stops i \<or> stops j")
    case False
    have "n - Suc j < length cs"
      using Cons.prems(1) j False latchedD[OF assms(1,2), of i] by (cases cs) auto
    with Cons r False show ?thesis by auto
  qed (use Cons.prems r in \<open>auto split: if_splits\<close>)
qed simp

text \<open>A first login succeeds exactly when both calls do and the token has an account.\<close>

lemma init_ok_iff:
  "init svc (new_token_manager cfg) secret = (Some (Inr ()), tm) \<longleftrightarrow>
     (\<exists>token ids. svc_auth svc (make_channel cfg) secret = Inr token
        \<and> svc_token_details svc (make_channel cfg) (''authorization'', ''Bearer '' @ token) token = Inr ids
        \<and> ids \<noteq> []
        \<and> tm = \<lparr>tm_cfg = cfg, tm_channel = Some (make_channel cfg), tm_jwt = token, account_ids = ids,
                tm_stop = False, renewal_thread = Some secret\<rparr>)"
  by (auto simp: init_def new_token_manager_def store_jwt_def Let_def split: sum.splits)

lemma first_init_returns: "fst (init svc (new_token_manager cfg) secret) \<noteq> None"
  by (simp add: init_def new_token_manager_def store_jwt_def Let_def split: sum.split)

lemma init_ok_account:
  "init svc (new_token_manager cfg) secret = (Some (Inr ()), tm) \<Longrightarrow> \<exists>acc. primary_account_id tm = Some acc"
  by (auto simp: init_ok_iff primary_account_id_def neq_Nil_conv)

text \<open>A second login on a running manager ends the program.\<close>

lemma second_init_terminates:
  assumes "init svc (new_token_manager cfg) secret = (Some (Inr ()), tm)"
  shows "fst (init svc tm secret) = None"
  using assms unfolding init_ok_iff by (auto simp: init_def store_jwt_def)

lemma no_account_is_error:
  assumes "svc_auth svc (make_channel cfg) secret = Inr token"
    and "svc_token_details svc (make_channel cfg) (''authorization'', ''Bearer '' @ token) token = Inr []"
  shows "fst (init svc (new_token_manager cfg) secret) = Some (Inl (mk_error InvalidArgument ''no account_ids''))"
  using assms by (simp add: init_def new_token_manager_def store_jwt_def)

section \<open>Properties\<close>

text \<open>
  C35: a session keeps its account and a usable token. After a successful login, and whatever the
  renewal stream delivers, \<open>primary_account_id\<close> returns the first account of the login instead
  of throwing; the token in use is the one of the login or a renewed one that is not empty; and once
  load number \<open>n\<close> of the stop flag sees it set, the renewal thread has ended before its connection
  number \<open>n + 1\<close> with its copy of the secret overwritten by zeros.
\<close>

theorem session_keeps_token:
  assumes "init svc (new_token_manager cfg) secret = (Some (Inr ()), tm)"
    and "run_renewal_stream stops 0 tm secret conns = (st, tm', sec')"
  shows "\<exists>acc. primary_account_id tm = Some acc \<and> primary_account_id tm' = Some acc
    \<and> tm_jwt tm' \<in> insert (tm_jwt tm) (set (concat conns) - {[]})
    \<and> (latched stops \<and> stops n \<and> n < length conns \<longrightarrow>
        st = LoopStopped \<and> sec' = replicate (length secret) (CHR 0x00))"
proof -
  obtain acc where acc: "primary_account_id tm = Some acc" using init_ok_account[OF assms(1)] by blast
  have "logged_in (account_ids tm) (insert (tm_jwt tm) (set (concat conns) - {[]})) tm"
    by (simp add: logged_in_def)
  from run_renewal_logged_in[OF this _ assms(2)]
  have l: "account_ids tm' = account_ids tm" "tm_jwt tm' \<in> insert (tm_jwt tm) (set (concat conns) - {[]})"
    by (auto simp: logged_in_def)
  have "st = LoopStopped \<and> sec' = secure_zero secret" if "latched stops \<and> stops n \<and> n < length conns"
    using run_renewal_stops[of stops n 0 conns, OF _ _ _ assms(2)] that by simp
  with acc l show ?thesis by (simp add: primary_account_id_def secure_zero_eq)
qed

definition demo_auth :: auth_service where
  "demo_auth = \<lparr>svc_auth = (\<lambda>ch s. if s = ''key'' then Inr ''t0'' else Inl ''denied''),
                svc_token_details = (\<lambda>ch md t. if t = ''t0'' then Inr [''A1''] else Inl ''unknown'')\<rparr>"

theorem session_keeps_token_witness:
  "\<exists>tm. init demo_auth (new_token_manager default_token_config) ''key'' = (Some (Inr ()), tm)
     \<and> primary_account_id (fst (snd (run_renewal_stream (\<lambda>i. 2 \<le> i) 0 tm ''key'' [[''t1'', []], [], []]))) = Some ''A1''
     \<and> snd (snd (run_renewal_stream (\<lambda>i. 2 \<le> i) 0 tm ''key'' [[''t1'', []], [], []])) = replicate 3 (CHR 0x00)"
proof -
  let ?tm = "\<lparr>tm_cfg = default_token_config, tm_channel = Some (make_channel default_token_config), tm_jwt = ''t0'',
     account_ids = [''A1''], tm_stop = False, renewal_thread = Some ''key''\<rparr>"
  let ?run = "run_renewal_stream (\<lambda>i. 2 \<le> i) 0 ?tm ''key'' [[''t1'', []], [], []]"
  have i: "init demo_auth (new_token_manager default_token_config) ''key'' = (Some (Inr ()), ?tm)"
    by (simp add: init_ok_iff demo_auth_def)
  obtain st tm' sec' where r: "?run = (st, tm', sec')" by (metis prod_cases3)
  from session_keeps_token[OF i r, of 2]
  have "primary_account_id tm' = Some ''A1''" "sec' = replicate 3 (CHR 0x00)"
    by (auto simp: latched_def primary_account_id_def numeral_3_eq_3)
  with i r show ?thesis by (intro exI[of _ ?tm]) simp
qed

end
