(* ===== verification/Health_Server.thy ===== *)
theory Health_Server
  imports Cxx_Text
begin

text \<open>
  \<open>src/core/health_server.hpp\<close>: the HTTP endpoint for health checks and metrics. What the socket
  calls return is the input: whether \<open>socket\<close> and \<open>bind\<close> succeed, and for every pass of the accept
  loop whether a client came, the bytes \<open>recv\<close> read and the status at that moment. The answers
  sent are the output.
\<close>

section \<open>Formatting with \<open>%f\<close>\<close>

text \<open>\<open>std::to_string(double)\<close>: six decimals of the exact value, rounded to nearest even.\<close>

definition pad6 :: "nat \<Rightarrow> string" where
  "pad6 n = (let ds = nat_to_string n in replicate (6 - length ds) (CHR ''0'') @ ds)"

definition format_f6 :: "rat \<Rightarrow> string" where
  "format_f6 q = (let n = nat (round_even (q * 10^6))
                  in nat_to_string (n div 10^6) @ ''.'' @ pad6 (n mod 10^6))"

definition double_to_string :: "double \<Rightarrow> string" where
  "double_to_string v =
     (case v of
        NaN \<Rightarrow> ''nan'' | PInf \<Rightarrow> ''inf'' | NInf \<Rightarrow> ''-inf''
      | Fin q \<Rightarrow> if q < 0 then CHR ''-'' # format_f6 (- q) else format_f6 q)"

section \<open>Requests\<close>

record health_status =
  hs_ok :: bool
  hs_active_symbol :: string
  hs_daily_pnl :: double
  hs_liquid_value :: double
  hs_circuit_breaker :: bool

text \<open>\<open>string_view::find(pat) != npos\<close>.\<close>

definition contains :: "string \<Rightarrow> string \<Rightarrow> bool" where
  "contains pat s = list_ex (\<lambda>i. take (length pat) (drop i s) = pat) [0..<Suc (length s)]"

abbreviation crlf :: string where
  "crlf \<equiv> [CHR 0x0D, CHR 0x0A]"

abbreviation newline :: string where
  "newline \<equiv> [CHR 0x0A]"

definition build_body :: "health_status \<Rightarrow> bool \<Rightarrow> string" where
  "build_body st metrics =
     (if \<not> metrics then (if hs_ok st then ''ok'' else ''circuit_breaker_tripped'')
      else ''# HELP tradebot_ok Bot health (1=ok, 0=tripped)'' @ newline
         @ ''tradebot_ok '' @ int_to_string (if hs_ok st then 1 else 0) @ newline
         @ ''# HELP tradebot_daily_pnl Daily PnL in ticks'' @ newline
         @ ''tradebot_daily_pnl '' @ double_to_string (hs_daily_pnl st) @ newline
         @ ''# HELP tradebot_liquid_value Net liquidation value'' @ newline
         @ ''tradebot_liquid_value '' @ double_to_string (hs_liquid_value st) @ newline
         @ ''# HELP tradebot_circuit_breaker Circuit breaker (1=tripped)'' @ newline
         @ ''tradebot_circuit_breaker '' @ int_to_string (if hs_circuit_breaker st then 1 else 0) @ newline)"

text \<open>The request as the code sees it: at most 255 bytes, up to the first zero byte.\<close>

definition request_text :: "string \<Rightarrow> string" where
  "request_text bytes = takeWhile (\<lambda>c. c \<noteq> CHR 0x00) (take 255 bytes)"

definition handle_request :: "health_status \<Rightarrow> string \<Rightarrow> string option" where
  "handle_request st bytes =
     (let req = request_text bytes;
          is_metrics = contains ''GET /metrics'' req;
          is_health = contains ''GET /health'' req
      in if \<not> is_health \<and> \<not> is_metrics then None
         else let body = build_body st is_metrics;
                  http_code = (if hs_ok st then ''200 OK'' else ''503 Service Unavailable'')
              in Some (''HTTP/1.1 '' @ http_code @ crlf @ ''Content-Type: text/plain'' @ crlf
                       @ ''Content-Length: '' @ nat_to_string (length body) @ crlf
                       @ ''Connection: close'' @ crlf @ crlf @ body))"

section \<open>The accept loop\<close>

datatype poll = SelectIdle | AcceptFailed | Client string health_status

fun accept_loop :: "(nat \<Rightarrow> bool) \<Rightarrow> nat \<Rightarrow> poll list \<Rightarrow> bool \<times> string list" where
  "accept_loop stops i [] = (False, [])"
| "accept_loop stops i (p # ps) =
     (if stops i then (True, [])
      else let (ended, rs) = accept_loop stops (Suc i) ps
           in (ended,
               case p of
                 Client bytes st \<Rightarrow> (case handle_request st bytes of Some r \<Rightarrow> r # rs | None \<Rightarrow> rs)
               | _ \<Rightarrow> rs))"

text \<open>\<open>serve_loop\<close>: whether it has returned, and the answers sent.\<close>

definition serve_loop :: "bool \<Rightarrow> bool \<Rightarrow> (nat \<Rightarrow> bool) \<Rightarrow> poll list \<Rightarrow> bool \<times> string list" where
  "serve_loop socket_ok bind_ok stops ps =
     (if \<not> socket_ok \<or> \<not> bind_ok then (True, []) else accept_loop stops 0 ps)"

text \<open>
  The server object: \<open>start\<close> is \<open>None\<close> when a thread is already running, which ends the program;
  \<open>stop\<close> sets the flag and waits for the thread.
\<close>

record health_server =
  hs_port :: nat
  hs_stop :: bool
  hs_thread :: bool

definition new_health_server :: "nat \<Rightarrow> health_server" where
  "new_health_server port = \<lparr>hs_port = port, hs_stop = False, hs_thread = False\<rparr>"

definition health_start :: "health_server \<Rightarrow> health_server option" where
  "health_start h = (if hs_thread h then None else Some (h\<lparr>hs_stop := False, hs_thread := True\<rparr>))"

definition health_stop :: "health_server \<Rightarrow> health_server" where
  "health_stop h = h\<lparr>hs_stop := True, hs_thread := False\<rparr>"

section \<open>Lemmas\<close>

text \<open>An answer is a status line, three headers and a body of the announced length.\<close>

definition http_answer :: "bool \<Rightarrow> string \<Rightarrow> string" where
  "http_answer ok body =
     ''HTTP/1.1 '' @ (if ok then ''200 OK'' else ''503 Service Unavailable'') @ crlf
     @ ''Content-Type: text/plain'' @ crlf @ ''Content-Length: '' @ nat_to_string (length body) @ crlf
     @ ''Connection: close'' @ crlf @ crlf @ body"

lemma contains_iff: "contains pat s \<longleftrightarrow> (\<exists>a b. s = a @ pat @ b)"
proof
  assume "contains pat s"
  then obtain i where i: "take (length pat) (drop i s) = pat" by (auto simp: contains_def list_ex_iff)
  have "s = take i s @ take (length pat) (drop i s) @ drop (length pat) (drop i s)"
    by (metis append_take_drop_id)
  then show "\<exists>a b. s = a @ pat @ b" unfolding i by blast
next
  assume "\<exists>a b. s = a @ pat @ b"
  then obtain a b where s: "s = a @ pat @ b" by blast
  then have "take (length pat) (drop (length a) s) = pat" "length a < Suc (length s)" by simp_all
  then show "contains pat s" by (auto simp: contains_def list_ex_iff simp del: upt_Suc)
qed

lemma handle_request_cases:
  "handle_request st bytes =
     (if contains ''GET /health'' (request_text bytes) \<or> contains ''GET /metrics'' (request_text bytes)
      then Some (http_answer (hs_ok st) (build_body st (contains ''GET /metrics'' (request_text bytes))))
      else None)"
  by (simp add: handle_request_def http_answer_def Let_def)

lemma accept_loop_answers:
  "accept_loop stops i ps = (ended, rs) \<Longrightarrow> r \<in> set rs \<Longrightarrow>
   \<exists>bytes st. Client bytes st \<in> set ps \<and> handle_request st bytes = Some r"
proof (induction ps arbitrary: i rs ended)
  case (Cons p ps)
  obtain e rs1 where a: "accept_loop stops (Suc i) ps = (e, rs1)" by fastforce
  show ?case
  proof (cases "r \<in> set rs1")
    case True
    then show ?thesis using Cons.IH[OF a] by auto
  next
    case False
    then obtain bytes st where "p = Client bytes st" "handle_request st bytes = Some r"
      using Cons.prems a by (auto split: if_splits poll.splits option.splits)
    then show ?thesis by (intro exI[of _ bytes] exI[of _ st]) simp
  qed
qed simp

lemma accept_loop_stops: "stops n \<Longrightarrow> i \<le> n \<Longrightarrow> n < i + length ps \<Longrightarrow> fst (accept_loop stops i ps)"
proof (induction ps arbitrary: i)
  case (Cons p ps)
  then show ?case by (cases "i = n") (auto simp: case_prod_beta)
qed simp

section \<open>Properties\<close>

text \<open>
  Every answer of the server is well formed and tells the truth. Each answer sent belongs to a
  client that asked for \<open>/health\<close> or \<open>/metrics\<close>, has the status 200 when the bot was healthy at that
  moment and 503 otherwise, and a body of exactly the announced length; other requests get no
  answer.
\<close>

lemma health_answers:
  assumes "serve_loop socket_ok bind_ok stops ps = (ended, rs)" and "r \<in> set rs"
  shows "\<exists>bytes st body. Client bytes st \<in> set ps \<and> r = http_answer (hs_ok st) body
    \<and> (contains ''GET /health'' (request_text bytes) \<or> contains ''GET /metrics'' (request_text bytes))
    \<and> body = build_body st (contains ''GET /metrics'' (request_text bytes))"
proof -
  have "accept_loop stops 0 ps = (ended, rs)" using assms by (auto simp: serve_loop_def split: if_splits)
  from accept_loop_answers[OF this assms(2)] obtain bytes st where
    "Client bytes st \<in> set ps" "handle_request st bytes = Some r" by blast
  then show ?thesis unfolding handle_request_cases by (auto split: if_splits)
qed

definition demo_status :: health_status where
  "demo_status = \<lparr>hs_ok = False, hs_active_symbol = ''Si'', hs_daily_pnl = Fin (- 3/2), hs_liquid_value = Fin 1000,
                  hs_circuit_breaker = True\<rparr>"

end
