(* ===== verification/Main_App.thy ===== *)
theory Main_App
  imports Runner_Threads Market_Data Token_Manager Health_Server
begin

text \<open>
  \<open>src/main.cpp\<close>: the arguments, the login, the construction of the risk manager, the executor and
  one runner per instrument, the callback that passes order updates on to every runner, and the
  status the health server asks for.

  The broker's services and the environment are a record; \<open>env_of\<close> is what a runner gets of
  them: its history comes from \<open>get_bars\<close> of the market data client with the token in use, its
  account from the token manager, its \<open>submit\<close> from the executor that was chosen.
\<close>

section \<open>The dry run executor\<close>

record dry_run_executor =
  dry_id :: int

definition dry_submit :: "dry_run_executor \<Rightarrow> order_request \<Rightarrow> int result \<times> dry_run_executor" where
  "dry_submit x req = (let i = wrap64 (dry_id x + 1) in (Inr i, x\<lparr>dry_id := i\<rparr>))"

definition dry_cancel :: "dry_run_executor \<Rightarrow> int \<Rightarrow> unit result" where
  "dry_cancel x no = Inr ()"

datatype app_executor = DryRun dry_run_executor | Live order_client

fun app_submit ::
  "(place_order \<Rightarrow> string + place_response) \<Rightarrow> time_point \<Rightarrow> app_executor \<Rightarrow> order_request
     \<Rightarrow> int result \<times> order_update list \<times> app_executor" where
  "app_submit rpc now (DryRun x) req = (let (r, x') = dry_submit x req in (r, [], DryRun x'))"
| "app_submit rpc now (Live c) req = (let (r, us, c') = submit rpc now c req in (r, us, Live c'))"

section \<open>Configuration\<close>

record symbol_config =
  sc_ticker :: string
  sc_tick_size :: double
  sc_base_qty :: int
  sc_sl_ticks :: double
  sc_tp_ticks :: double
  sc_rollover_days :: int

definition make_symbol_configs :: "symbol_config list" where
  "make_symbol_configs =
     [\<lparr>sc_ticker = ''Si'', sc_tick_size = lit 1, sc_base_qty = 1, sc_sl_ticks = lit 30, sc_tp_ticks = lit 90, sc_rollover_days = 5\<rparr>,
      \<lparr>sc_ticker = ''RI'', sc_tick_size = lit 10, sc_base_qty = 1, sc_sl_ticks = lit 30, sc_tp_ticks = lit 90, sc_rollover_days = 5\<rparr>,
      \<lparr>sc_ticker = ''GD'', sc_tick_size = lit 1, sc_base_qty = 1, sc_sl_ticks = lit 30, sc_tp_ticks = lit 90, sc_rollover_days = 5\<rparr>,
      \<lparr>sc_ticker = ''MX'', sc_tick_size = lit (5/100), sc_base_qty = 1, sc_sl_ticks = lit 30, sc_tp_ticks = lit 90, sc_rollover_days = 5\<rparr>,
      \<lparr>sc_ticker = ''BR'', sc_tick_size = lit (1/100), sc_base_qty = 1, sc_sl_ticks = lit 30, sc_tp_ticks = lit 90, sc_rollover_days = 5\<rparr>]"

text \<open>The flags \<open>--dry-run\<close> and \<open>--debug\<close>; the first argument is the program's name.\<close>

definition parse_args :: "string list \<Rightarrow> bool \<times> bool" where
  "parse_args argv =
     foldl (\<lambda>(dry_run, debug_mode) arg. (dry_run \<or> arg = ''--dry-run'', debug_mode \<or> arg = ''--debug''))
       (False, False) (tl argv)"

definition main_risk_config :: risk_config where
  "main_risk_config = \<lparr>per_trade_pct = lit 2, max_daily_loss_pct = lit 5, max_drawdown_pct = lit 15,
                       max_positions = 5, require_stop_loss = True, rollover_days = 5\<rparr>"

definition strategy_config :: "time_point \<Rightarrow> symbol_config \<Rightarrow> confluence_config" where
  "strategy_config now sc =
     (default_confluence_config (nearest_contract (sc_ticker sc) (sc_rollover_days sc) now))
       \<lparr>base_qty := sc_base_qty sc, sl_ticks := sc_sl_ticks sc, tp_ticks := sc_tp_ticks sc, tick_size := sc_tick_size sc\<rparr>"

section \<open>Start\<close>

record services =
  sv_libm :: libm
  sv_now :: time_point
  sv_auth :: auth_service
  sv_account :: "string + account_response"
  sv_margin :: "symbol \<Rightarrow> string + asset_params"
  sv_bars :: "string \<times> string \<Rightarrow> bars_request \<Rightarrow> string + proto_bar list"
  sv_place :: "place_order \<Rightarrow> string + place_response"
  sv_visit :: "risk_manager \<Rightarrow> int list"

definition env_of :: "services \<Rightarrow> token_manager \<Rightarrow> string \<Rightarrow> app_executor runner_env" where
  "env_of sv tm acc =
     \<lparr>env_libm = sv_libm sv, env_account = acc, env_margin = sv_margin sv, env_now = sv_now sv,
      env_bars = get_bars (sv_bars sv) (tm_jwt tm), env_visit = sv_visit sv,
      env_submit = app_submit (sv_place sv) (sv_now sv)\<rparr>"

record app =
  app_token :: token_manager
  app_risk :: risk_manager
  app_exec :: app_executor
  app_runners :: "runner list"

definition make_runner :: "app_executor runner_env \<Rightarrow> symbol_config \<Rightarrow> runner" where
  "make_runner E sc = new_runner E (strategy_config (env_now E) sc) (sc_ticker sc) 20 (sc_rollover_days sc)"

definition make_executor :: "bool \<Rightarrow> string \<Rightarrow> app_executor" where
  "make_executor dry_run acc = (if dry_run then DryRun \<lparr>dry_id = 0\<rparr> else Live (new_order_client acc))"

datatype start_result = Exit int | Terminated | Running app

definition main_start :: "services \<Rightarrow> string list \<Rightarrow> string option \<Rightarrow> start_result" where
  "main_start sv argv secret_env =
     (let (dry_run, debug_mode) = parse_args argv
      in case secret_env of
           None \<Rightarrow> Exit 1
         | Some secret \<Rightarrow>
             (case init (sv_auth sv) (new_token_manager default_token_config) secret of
                (None, tm) \<Rightarrow> Terminated
              | (Some (Inl err), tm) \<Rightarrow> Exit 1
              | (Some (Inr _), tm) \<Rightarrow>
                  (case primary_account_id tm of
                     None \<Rightarrow> Terminated
                   | Some acc \<Rightarrow>
                       Running \<lparr>app_token = tm,
                                app_risk = start_risk (new_risk_manager main_risk_config) (sv_account sv) (sv_now sv),
                                app_exec = make_executor dry_run acc,
                                app_runners = map (make_runner (env_of sv tm acc)) make_symbol_configs\<rparr>)))"

section \<open>Order updates and health\<close>

text \<open>The callback set on the order client: every runner's callback in turn, on the shared risk manager.\<close>

fun broadcast ::
  "'x runner_env \<Rightarrow> 'x \<Rightarrow> risk_manager option \<Rightarrow> runner list \<Rightarrow> order_update \<Rightarrow> risk_manager option \<times> runner list" where
  "broadcast E x r [] u = (r, [])"
| "broadcast E x r (rn # rns) u =
     (let d = order_callback E \<lparr>the_runner = rn, risk = r, executor = x, sent = []\<rparr> u;
          (r', rns') = broadcast E x (risk d) rns u
      in (r', the_runner d # rns'))"

fun join_symbols :: "string \<Rightarrow> symbol_config list \<Rightarrow> string" where
  "join_symbols symbols [] = symbols"
| "join_symbols symbols (sc # scs) =
     join_symbols ((if symbols \<noteq> [] then symbols @ '','' else symbols) @ sc_ticker sc) scs"

definition app_health :: "app \<Rightarrow> health_status" where
  "app_health a =
     \<lparr>hs_ok = (\<not> tripped (app_risk a)), hs_active_symbol = join_symbols [] make_symbol_configs,
      hs_daily_pnl = daily_pnl (account (app_risk a)), hs_liquid_value = liquid_value (account (app_risk a)),
      hs_circuit_breaker = tripped (app_risk a)\<rparr>"

section \<open>Shutdown\<close>

text \<open>The two flags a signal sets, and the loop that waits for one of them; \<open>None\<close> as long as it waits.\<close>

record shutdown_flags =
  g_shutdown_signal :: int
  g_shutdown :: bool

definition signal_handler :: "shutdown_flags \<Rightarrow> shutdown_flags" where
  "signal_handler f = f\<lparr>g_shutdown_signal := 1, g_shutdown := True\<rparr>"

fun main_wait :: "shutdown_flags list \<Rightarrow> nat option" where
  "main_wait [] = None"
| "main_wait (f # fs) =
     (if g_shutdown_signal f \<noteq> 0 \<or> g_shutdown f then Some 0 else map_option Suc (main_wait fs))"

text \<open>
  What is still running: the health server, the runners' threads, the order stream, the risk
  manager's polling and the token renewal, stopped in this order.
\<close>

datatype service = SvHealth | SvRunner nat | SvOrders | SvRisk | SvToken

definition running_services :: "app \<Rightarrow> service list" where
  "running_services a =
     SvHealth # map SvRunner [0..<length (app_runners a)]
     @ (case app_exec a of Live _ \<Rightarrow> [SvOrders] | DryRun _ \<Rightarrow> []) @ [SvRisk, SvToken]"

definition main_shutdown :: "app \<Rightarrow> app \<times> service list" where
  "main_shutdown a = (a\<lparr>app_runners := [], app_token := tm_shutdown (app_token a)\<rparr>, running_services a)"

text \<open>
  A thread with its stop flag, as every service has one: \<open>w_joinable\<close> says that the \<open>std::thread\<close>
  still owns a thread, whose destruction would end the program. \<open>OrderClient::shutdown\<close> does nothing
  the second time; the two threads of a runner share one flag.
\<close>

record worker =
  w_stop :: bool
  w_joinable :: bool

definition risk_shutdown :: "worker \<Rightarrow> worker" where
  "risk_shutdown w = w\<lparr>w_stop := True, w_joinable := False\<rparr>"

definition order_shutdown :: "worker \<Rightarrow> worker" where
  "order_shutdown w = (if w_stop w then w else w\<lparr>w_stop := True, w_joinable := False\<rparr>)"

record runner_workers =
  rw_stop :: bool
  rw_rollover :: bool
  rw_strategy :: bool

definition runner_shutdown :: "runner_workers \<Rightarrow> runner_workers" where
  "runner_shutdown w = w\<lparr>rw_stop := True, rw_rollover := False, rw_strategy := False\<rparr>"

record app_workers =
  wk_health :: health_server
  wk_runners :: "runner_workers list"
  wk_orders :: "worker option"
  wk_risk :: worker
  wk_token :: token_manager

definition started_workers :: "app \<Rightarrow> app_workers option" where
  "started_workers a =
     map_option (\<lambda>h.
       \<lparr>wk_health = h,
        wk_runners = map (\<lambda>_. \<lparr>rw_stop = False, rw_rollover = True, rw_strategy = True\<rparr>) (app_runners a),
        wk_orders = (case app_exec a of Live _ \<Rightarrow> Some \<lparr>w_stop = False, w_joinable = True\<rparr> | DryRun _ \<Rightarrow> None),
        wk_risk = \<lparr>w_stop = False, w_joinable = True\<rparr>, wk_token = app_token a\<rparr>)
       (health_start (new_health_server 8080))"

definition stop_workers :: "app_workers \<Rightarrow> app_workers" where
  "stop_workers w =
     w\<lparr>wk_health := health_stop (wk_health w), wk_runners := map runner_shutdown (wk_runners w),
       wk_orders := map_option order_shutdown (wk_orders w), wk_risk := risk_shutdown (wk_risk w),
       wk_token := tm_shutdown (wk_token w)\<rparr>"

text \<open>
  When \<open>main\<close> returns no \<open>std::thread\<close> owns a thread any more, so no destructor ends the program, and
  the destructors, which call \<open>shutdown\<close> again, change nothing.
\<close>

definition all_joined :: "app_workers \<Rightarrow> bool" where
  "all_joined w \<longleftrightarrow>
     \<not> hs_thread (wk_health w) \<and> list_all (\<lambda>r. \<not> rw_rollover r \<and> \<not> rw_strategy r) (wk_runners w)
     \<and> (case wk_orders w of Some x \<Rightarrow> \<not> w_joinable x | None \<Rightarrow> True)
     \<and> \<not> w_joinable (wk_risk w) \<and> renewal_thread (wk_token w) = None"

lemmas worker_defs =
  stop_workers_def started_workers_def runner_shutdown_def order_shutdown_def risk_shutdown_def
  tm_shutdown_def health_stop_def health_start_def new_health_server_def

lemma shutdown_joins_all:
  "\<exists>w. started_workers a = Some w \<and> all_joined (stop_workers w) \<and> stop_workers (stop_workers w) = stop_workers w"
  by (simp add: worker_defs all_joined_def list_all_iff split: app_executor.split)

text \<open>The loop ends with the first look after a signal.\<close>

lemma main_wait_after_signal: "main_wait (fs @ signal_handler f # gs) \<noteq> None"
  by (induction fs) (simp_all add: signal_handler_def)

lemma shutdown_stops_renewal:
  "renewal_thread (app_token (fst (main_shutdown a))) = None" "tm_stop (app_token (fst (main_shutdown a)))"
  by (simp_all add: main_shutdown_def tm_shutdown_def)

section \<open>The dry run executor is an executor\<close>

interpretation dry_executor: order_executor dry_submit dry_id "\<lambda>x n. 0 \<le> dry_id x \<and> dry_id x + int n < 2 ^ 63"
proof
  fix x n req r x'
  assume a: "0 \<le> dry_id x \<and> dry_id x + int (Suc n) < 2 ^ 63" "dry_submit x req = (r, x')"
  have w: "wrap64 (dry_id x + 1) = dry_id x + 1" using a(1) by (intro wrap64_id) auto
  then have e: "r = Inr (dry_id x + 1)" "dry_id x' = dry_id x + 1" using a(2) by (auto simp: dry_submit_def Let_def)
  show "0 \<le> dry_id x' \<and> dry_id x' + int n < 2 ^ 63" "dry_id x \<le> dry_id x'" using a(1) e by auto
next
  fix x n req i x'
  assume a: "0 \<le> dry_id x \<and> dry_id x + int (Suc n) < 2 ^ 63" "dry_submit x req = (Inr i, x')"
  have "wrap64 (dry_id x + 1) = dry_id x + 1" using a(1) by (intro wrap64_id) auto
  then show "dry_id x < i \<and> i \<le> dry_id x'" using a(2) by (auto simp: dry_submit_def Let_def)
qed

section \<open>Routing of order updates\<close>

text \<open>The runners whose callback lets an update pass.\<close>

definition addressed :: "order_update \<Rightarrow> runner \<Rightarrow> bool" where
  "addressed u rn \<longleftrightarrow> upd_symbol u = active_symbol rn \<or> security_code (upd_symbol u) = []"

definition is_fill :: "order_update \<Rightarrow> bool" where
  "is_fill u \<longleftrightarrow> (upd_status u = Filled \<or> upd_status u = PartialFill) \<and> 0 < upd_qty_filled u"

definition enqueue :: "order_update \<Rightarrow> runner \<Rightarrow> runner" where
  "enqueue u rn = rn\<lparr>queue := snd (push (queue rn) (MdUpdate u))\<rparr>"

definition deliver :: "order_update \<Rightarrow> runner \<Rightarrow> runner" where
  "deliver u rn = (if addressed u rn then enqueue u rn else rn)"

lemma order_callback_routes:
  "order_callback E d u =
     (if addressed u (the_runner d)
      then d\<lparr>risk := map_option (\<lambda>r. if is_fill u then on_fill (env_visit E r) r u else r) (risk d),
             the_runner := deliver u (the_runner d)\<rparr>
      else d)"
  by (auto simp: order_callback_def addressed_def is_fill_def deliver_def enqueue_def Let_def split: option.split)

lemma broadcast_routes:
  "broadcast E x r rns u =
     (((map_option (\<lambda>r. if is_fill u then on_fill (env_visit E r) r u else r)) ^^ length (filter (addressed u) rns)) r,
      map (deliver u) rns)"
proof (induction rns arbitrary: r)
  case (Cons rn rns)
  show ?case
    by (simp add: order_callback_routes Cons.IH deliver_def funpow_swap1[symmetric] del: funpow.simps)
      (simp add: funpow_Suc_right)
qed simp

section \<open>Dry runs\<close>

definition no_update :: "md_event \<Rightarrow> bool" where
  "no_update ev \<longleftrightarrow> (case ev of MdUpdate _ \<Rightarrow> False | _ \<Rightarrow> True)"

text \<open>A flat strategy on a dry run, with no order update waiting.\<close>

definition dry_flat :: "app_executor desk \<Rightarrow> bool" where
  "dry_flat d \<longleftrightarrow> position (rn_strategy (the_runner d)) = 0 \<and> (\<exists>x. executor d = DryRun x)
     \<and> queue_ok (queue (the_runner d)) \<and> list_all no_update (contents (queue (the_runner d)))"

lemma position_frame [frame_simps]:
  "position s = 0 \<Longrightarrow> position (snd (on_bar s b)) = 0" "position s = 0 \<Longrightarrow> position (snd (on_quote s q)) = 0"
  "position (update_bbo s x y) = position s"
proof -
  have h: "position s = 0 \<Longrightarrow> position (handle_session_open s ts) = 0" for s ts
    using handle_session_open_cases[of s ts] by (auto simp: on_session_open_def)
  show "position s = 0 \<Longrightarrow> position (snd (on_bar s b)) = 0"
    by (simp add: on_bar_def h Let_def split: bar_timeframe.split)
  show "position s = 0 \<Longrightarrow> position (snd (on_quote s q)) = 0" by (simp add: on_quote_state h)
qed (simp add: update_bbo_def)

lemma load_history_flat:
  "position (rn_strategy rn) = 0 \<Longrightarrow> position (rn_strategy (load_history E rn sy)) = 0"
proof -
  have "position s = 0 \<Longrightarrow> position (foldl (\<lambda>s b. snd (on_bar s b)) s bars) = 0" for s bars
    by (induction bars arbitrary: s) (simp_all add: frame_simps)
  then show "position (rn_strategy rn) = 0 \<Longrightarrow> ?thesis"
    by (simp add: load_history_def Let_def split: sum.split)
qed

abbreviation dry :: "app_executor \<Rightarrow> bool" where
  "dry x \<equiv> \<exists>y. x = DryRun y"

lemma dry_silent: "silent (env_of sv tm acc) dry"
  by (auto simp: silent_def env_of_def case_prod_beta)

lemma flat_dispatch:
  assumes "position (rn_strategy (the_runner d)) = 0" "no_update ev"
  shows "position (rn_strategy (the_runner (dispatch E d ev))) = 0"
  using assms
  by (cases ev) (auto simp: no_update_def frame_simps on_rollover_def start_subscriptions_def
      unsubscribe_all_def on_session_open_def load_history_flat Let_def case_prod_beta split: option.split)

lemma flat_run:
  "position (rn_strategy (the_runner d)) = 0 \<Longrightarrow> list_all no_update evs \<Longrightarrow>
   position (rn_strategy (the_runner (foldl (dispatch E) d evs))) = 0"
  by (induction evs arbitrary: d) (simp_all add: flat_dispatch)

lemma dry_drain:
  assumes "dry_flat d"
  shows "\<exists>d'. drain_queue 2048 (env_of sv tm acc) d = Some d' \<and> dry_flat d'"
proof -
  let ?evs = "contents (queue (the_runner d))" and ?E = "env_of sv tm acc"
  have d: "dry (executor d)" "queue_ok (queue (the_runner d))" using assms by (auto simp: dry_flat_def)
  have "length ?evs < 2048" using queue_ok_bound[OF d(2)] by simp
  from silent_drain[OF dry_silent d this, of sv tm acc] obtain q where
    q: "drain_queue 2048 ?E d = Some (with_queue q (foldl (dispatch ?E) d ?evs))" "queue_ok q" "contents q = []" by blast
  moreover have "position (rn_strategy (the_runner (foldl (dispatch ?E) d ?evs))) = 0"
    using assms by (intro flat_run) (auto simp: dry_flat_def)
  ultimately show ?thesis using silent_run(2)[OF dry_silent d(1)] by (auto simp: dry_flat_def)
qed

lemma dry_arrivals: "dry_flat d \<Longrightarrow> list_all no_update evs \<Longrightarrow> dry_flat (arrivals evs d)"
proof (induction evs arbitrary: d)
  case (Cons ev evs)
  have "dry_flat (d\<lparr>the_runner := md_callback (the_runner d) ev\<rparr>)"
    using push_cases[of "queue (the_runner d)" ev] Cons.prems by (auto simp: dry_flat_def md_callback_def)
  then show ?case using Cons.IH Cons.prems(2) by (fastforce simp: arrivals_def)
qed (simp add: arrivals_def)

lemma dry_thread:
  "dry_flat d \<Longrightarrow> list_all (list_all no_update) batches \<Longrightarrow>
   \<exists>ended d'. strategy_thread 2048 stops i (env_of sv tm acc) d (map arrivals batches) = Some (ended, d') \<and> dry_flat d'"
proof (induction batches arbitrary: i d)
  case (Cons evs batches)
  from dry_drain[OF Cons.prems(1)] obtain d1 where
    d1: "drain_queue 2048 (env_of sv tm acc) d = Some d1" "dry_flat d1" by blast
  have "dry_flat (arrivals evs d1)" using dry_arrivals[OF d1(2)] Cons.prems(2) by simp
  then show ?case using Cons.IH[of "arrivals evs d1" "Suc i"] Cons.prems(2) d1 by auto
qed (auto intro: exI[of _ False])

section \<open>Start\<close>

lemma parse_args_flags:
  "parse_args argv = (''--dry-run'' \<in> set (tl argv), ''--debug'' \<in> set (tl argv))"
proof -
  have "foldl (\<lambda>(a, b) arg. (a \<or> arg = ''--dry-run'', b \<or> arg = ''--debug'')) (x, y) args
      = (x \<or> ''--dry-run'' \<in> set args, y \<or> ''--debug'' \<in> set args)" for x y args
    by (induction args arbitrary: x y) auto
  then show ?thesis by (simp add: parse_args_def)
qed

lemma make_runner_fields:
  "active_symbol (make_runner E sc) = nearest_contract (sc_ticker sc) (sc_rollover_days sc) (env_now E)"
  "position (rn_strategy (make_runner E sc)) = 0" "queue (make_runner E sc) = new_queue default_md_event kQueueSize"
  by (simp_all add: make_runner_def new_runner_def start_subscriptions_def strategy_config_def
      default_confluence_config_def load_history_flat new_confluence_def Let_def)

lemma make_runner_subs: "subs_ok (make_runner E sc)"
  by (simp add: make_runner_def new_runner_subs)

text \<open>The daily history of the broker reaches the session context of the new runner, bar by bar.\<close>

lemma daily_bars_reach_session:
  "cs_symbol (cs_cfg s) = sy \<Longrightarrow>
   session_ctx (foldl (\<lambda>s b. snd (on_bar s b)) s (map (bar_of_proto sy ''D1'') bs))
     = foldl on_daily_bar (session_ctx s) (map (bar_of_proto sy ''D1'') bs)"
proof (induction bs arbitrary: s)
  case (Cons b bs)
  have "snd (on_bar s (bar_of_proto sy ''D1'' b)) = s\<lparr>session_ctx := on_daily_bar (session_ctx s) (bar_of_proto sy ''D1'' b)\<rparr>"
    using Cons.prems by (simp add: on_bar_def detect_timeframe_def bar_of_proto_def)
  then show ?case using Cons by simp
qed simp

lemma history_reaches_session:
  assumes "sy = nearest_contract (sc_ticker sc) (sc_rollover_days sc) (sv_now sv)"
    and "get_bars (sv_bars sv) (tm_jwt tm) sy ''D1'' (sv_now sv - seconds (3600 * (24 * 20))) (sv_now sv)
      = Inr (map (bar_of_proto sy ''D1'') bs)"
  shows "session_ctx (rn_strategy (make_runner (env_of sv tm acc) sc))
    = foldl on_daily_bar (new_session_context default_session_config) (map (bar_of_proto sy ''D1'') bs)"
proof -
  let ?cfg = "strategy_config (sv_now sv) sc" and ?E = "env_of sv tm acc"
  have c: "cs_symbol ?cfg = sy" "cs_session_cfg ?cfg = default_session_config"
    by (simp_all add: strategy_config_def default_confluence_config_def assms(1))
  have e: "env_now ?E = sv_now sv" "env_bars ?E = get_bars (sv_bars sv) (tm_jwt tm)" by (simp_all add: env_of_def)
  let ?s = "new_confluence (env_libm ?E) ?cfg"
  have "rn_strategy (make_runner ?E sc) = foldl (\<lambda>s b. snd (on_bar s b)) ?s (map (bar_of_proto sy ''D1'') bs)"
    using assms(2) by (simp add: make_runner_def new_runner_def start_subscriptions_def load_history_def Let_def e c)
  then show ?thesis
    using daily_bars_reach_session[of ?s sy bs] c by (simp add: new_confluence_def)
qed

lemma contracts_distinct:
  "distinct (map (\<lambda>sc. nearest_contract (sc_ticker sc) (sc_rollover_days sc) now) make_symbol_configs)"
  by (simp add: make_symbol_configs_def nearest_contract_def case_prod_beta Let_def)

section \<open>Properties\<close>

text \<open>A runner as it starts: subscribed to its contract, flat, nothing queued.\<close>

definition fresh_runner :: "runner \<Rightarrow> bool" where
  "fresh_runner rn \<longleftrightarrow> subs_ok rn \<and> position (rn_strategy rn) = 0 \<and> contents (queue rn) = []"

lemma started_runners:
  defines "rns \<equiv> \<lambda>sv tm acc. map (make_runner (env_of sv tm acc)) make_symbol_configs"
  shows "list_all fresh_runner (rns sv tm acc)" and "length (rns sv tm acc) = 5"
    and "map active_symbol (rns sv tm acc) = map (\<lambda>sc. nearest_contract (sc_ticker sc) 5 (sv_now sv)) make_symbol_configs"
    and "distinct (map active_symbol (rns sv tm acc))"
proof -
  have now: "env_now (env_of sv tm acc) = sv_now sv" by (simp add: env_of_def)
  have five: "map (\<lambda>sc. nearest_contract (sc_ticker sc) (sc_rollover_days sc) (sv_now sv)) make_symbol_configs
    = map (\<lambda>sc. nearest_contract (sc_ticker sc) 5 (sv_now sv)) make_symbol_configs" "length make_symbol_configs = 5"
    by (simp_all add: make_symbol_configs_def)
  show "list_all fresh_runner (rns sv tm acc)" "length (rns sv tm acc) = 5"
    by (simp_all add: rns_def list_all_iff fresh_runner_def make_runner_fields make_runner_subs five)
  show sy: "map active_symbol (rns sv tm acc) = map (\<lambda>sc. nearest_contract (sc_ticker sc) 5 (sv_now sv)) make_symbol_configs"
    using five(1) by (simp add: rns_def make_runner_fields now)
  show "distinct (map active_symbol (rns sv tm acc))" using contracts_distinct[of "sv_now sv"] five(1) sy by simp
qed

text \<open>
  C36: the program either exits with code 1 (no secret in the environment, or the login fails) or
  starts completely: one runner for each of the five instruments, each on the contract that
  \<open>nearest_contract\<close> names and subscribed to it, on five different contracts, flat and with an
  empty queue, under a risk manager that is not tripped, and with the dry run executor exactly
  when \<open>--dry-run\<close> was given.
\<close>

theorem main_starts_or_exits:
  "case main_start sv argv secret_env of
     Terminated \<Rightarrow> False
   | Exit code \<Rightarrow> code = 1 \<and> (\<nexists>secret tm. secret_env = Some secret
        \<and> init (sv_auth sv) (new_token_manager default_token_config) secret = (Some (Inr ()), tm))
   | Running a \<Rightarrow>
       map active_symbol (app_runners a) = map (\<lambda>sc. nearest_contract (sc_ticker sc) 5 (sv_now sv)) make_symbol_configs
       \<and> distinct (map active_symbol (app_runners a)) \<and> length (app_runners a) = 5
       \<and> list_all fresh_runner (app_runners a) \<and> \<not> tripped (app_risk a)
       \<and> (\<exists>x. app_exec a = DryRun x) = (''--dry-run'' \<in> set (tl argv))"
proof (cases secret_env)
  case None
  then show ?thesis by (simp add: main_start_def case_prod_beta)
next
  case (Some secret)
  let ?init = "init (sv_auth sv) (new_token_manager default_token_config) secret"
  obtain r tm where i: "?init = (r, tm)" by fastforce
  have nt: "r \<noteq> None" using first_init_returns[of "sv_auth sv" default_token_config secret] i by simp
  show ?thesis
  proof (cases "r = Some (Inr ())")
    case True
    then obtain acc where acc: "primary_account_id tm = Some acc" using init_ok_account i by blast
    define rns where "rns = map (make_runner (env_of sv tm acc)) make_symbol_configs"
    note started_runners[of sv tm acc, folded rns_def]
    moreover have "\<not> tripped (start_risk (new_risk_manager main_risk_config) (sv_account sv) (sv_now sv))"
      by (simp add: start_risk_def new_risk_manager_def)
    moreover have "main_start sv argv secret_env = Running \<lparr>app_token = tm,
        app_risk = start_risk (new_risk_manager main_risk_config) (sv_account sv) (sv_now sv),
        app_exec = make_executor (''--dry-run'' \<in> set (tl argv)) acc, app_runners = rns\<rparr>"
      using True by (simp add: main_start_def Some i acc parse_args_flags rns_def)
    ultimately show ?thesis by (simp add: make_executor_def)
  next
    case False
    then obtain e where "r = Some (Inl e)" using nt by (cases r) (auto, metis sum.exhaust unit.exhaust)
    then show ?thesis using Some i by (simp add: main_start_def case_prod_beta)
  qed
qed

text \<open>
  C37: who hears of an order update. Among runners on different contracts, an update with a symbol
  is queued (unless the queue is full) for the runner on that contract only, and the shared risk
  manager accounts a fill once; if no runner is on that contract nothing happens. But an order that
  the client did not place itself has no symbol in its table: its update is queued for every runner,
  and the risk manager accounts its fill once per runner.
\<close>

theorem update_routing:
  assumes "distinct (map active_symbol rns)"
  shows "broadcast E x (Some r) rns u =
    (if security_code (upd_symbol u) \<noteq> []
     then (Some (if is_fill u \<and> upd_symbol u \<in> active_symbol ` set rns then on_fill (env_visit E r) r u else r),
           map (\<lambda>rn. if active_symbol rn = upd_symbol u then enqueue u rn else rn) rns)
     else (Some (if is_fill u then ((\<lambda>r. on_fill (env_visit E r) r u) ^^ length rns) r else r), map (enqueue u) rns))"
proof (cases "security_code (upd_symbol u) = []")
  case True
  then have a: "addressed u rn" for rn by (simp add: addressed_def)
  have f: "(map_option g ^^ n) (Some r) = Some ((g ^^ n) r)" for g :: "risk_manager \<Rightarrow> risk_manager" and n
    by (induction n) simp_all
  have "((\<lambda>r. r) ^^ n) r = r" for n by (induction n) simp_all
  with True show ?thesis by (auto simp: broadcast_routes a f deliver_def)
next
  case False
  then have a: "addressed u rn \<longleftrightarrow> active_symbol rn = upd_symbol u" for rn by (auto simp: addressed_def)
  have "length (filter (addressed u) rns) = (if upd_symbol u \<in> active_symbol ` set rns then 1 else 0)"
    using assms by (induction rns) (auto simp: a filter_empty_conv split: if_splits)
  with False show ?thesis by (auto simp: broadcast_routes deliver_def a)
qed

text \<open>An order of an earlier session, reported by the stream to a client that has just started.\<close>

theorem update_routing_witness:
  "broadcast demo_env () (Some (new_risk_manager default_risk_config)) [the_runner (demo_desk armed None)]
     (fill_of Buy 0 1 100\<lparr>upd_symbol := empty_symbol\<rparr>)
   = (Some (on_fill [] (new_risk_manager default_risk_config) (fill_of Buy 0 1 100\<lparr>upd_symbol := empty_symbol\<rparr>)),
      [enqueue (fill_of Buy 0 1 100\<lparr>upd_symbol := empty_symbol\<rparr>) (the_runner (demo_desk armed None))])"
  by (subst update_routing) (simp_all add: is_fill_def fill_of_def demo_env_def)

text \<open>
  C38: a dry run never holds a position. Orders of the dry run executor are never filled and nobody
  reports to the runners, so from a flat start, whatever market data arrives and however long the
  strategy thread runs, the position stays zero: no exit is ever tried in a dry run.
\<close>

theorem dry_run_never_in_position:
  assumes "executor d = DryRun x" and "the_runner d = make_runner (env_of sv tm acc) sc"
    and "list_all (list_all no_update) batches"
  shows "\<exists>ended d'. strategy_thread 2048 stops 0 (env_of sv tm acc) d (map arrivals batches) = Some (ended, d')
    \<and> position (rn_strategy (the_runner d')) = 0"
proof -
  have "dry_flat d" using assms(1,2) queue_ok_new by (simp add: dry_flat_def make_runner_fields)
  from dry_thread[OF this assms(3), of stops 0 sv tm acc] show ?thesis by (auto simp: dry_flat_def)
qed

definition demo_services :: services where
  "demo_services = \<lparr>sv_libm = step_libm, sv_now = 0, sv_auth = demo_auth, sv_account = Inl ''down'',
     sv_margin = (\<lambda>_. Inl ''down''), sv_bars = (\<lambda>_ _. Inr []), sv_place = (\<lambda>_. Inl ''down''), sv_visit = (\<lambda>_. [])\<rparr>"

theorem dry_run_never_in_position_witness:
  "\<exists>ended d'. strategy_thread 2048 (\<lambda>_. False) 0 (env_of demo_services (new_token_manager default_token_config) ''acc'')
     \<lparr>the_runner = make_runner (env_of demo_services (new_token_manager default_token_config) ''acc'') (hd make_symbol_configs),
      risk = None, executor = DryRun \<lparr>dry_id = 0\<rparr>, sent = []\<rparr> (map arrivals [[MdQuote (quote_at 100 600)]]) = Some (ended, d')
    \<and> position (rn_strategy (the_runner d')) = 0"
  by (rule dry_run_never_in_position[where x = "\<lparr>dry_id = 0\<rparr>" and sc = "hd make_symbol_configs"])
    (simp_all add: no_update_def)

section \<open>Health\<close>

text \<open>\<open>/health\<close> answers 200 exactly while the breaker is not tripped.\<close>

lemma health_tells_breaker:
  assumes "contains ''GET /health'' (request_text bytes)"
  shows "\<exists>body. handle_request (app_health a) bytes = Some (http_answer (\<not> tripped (app_risk a)) body)"
  using assms by (auto simp: handle_request_cases app_health_def)

lemma health_symbols: "hs_active_symbol (app_health a) = ''Si,RI,GD,MX,BR''"
  by (simp add: app_health_def make_symbol_configs_def)

end
