(* ===== verification/Order_Stream.thy ===== *)
theory Order_Stream
  imports Order_Client Stream_Loop
begin

text \<open>
  \<open>OrderClient::run_order_stream\<close> of \<open>src/order/order_client.cpp\<close>: the thread that follows the
  broker's order stream. It pauses during the maintenance window and backs off before a reconnect.
  While it is blocked in \<open>Read\<close>, other threads submit orders through the same table; what they do
  to the client in the meantime is part of the message.
\<close>

section \<open>The thread\<close>

record orders_message =
  om_meanwhile :: "order_client \<Rightarrow> order_client"
  om_now :: time_point
  om_orders :: "stream_order list"

definition on_orders_message :: "order_client \<Rightarrow> orders_message \<Rightarrow> (order_update list \<times> order_client) option" where
  "on_orders_message c m = Some (on_stream_response (om_now m) (om_meanwhile m c) (om_orders m))"

fun run_order_stream ::
  "(nat \<Rightarrow> bool) \<Rightarrow> (nat \<Rightarrow> time_point) \<Rightarrow> nat \<Rightarrow> nat \<Rightarrow> order_client \<Rightarrow> backoff
     \<Rightarrow> (orders_message list \<times> distribution) list \<Rightarrow> (order_update list \<times> loop_status \<times> order_client) option" where
  "run_order_stream stops clock i k c b [] = Some ([], LoopRunning, c)"
| "run_order_stream stops clock i k c b ((ms, draw) # cs) =
     (if stops i then Some ([], LoopStopped, c)
      else case wait_if_active default_maintenance_config stops clock (Suc i) k of
             None \<Rightarrow> None
           | Some (out_of_window, i1, k1) \<Rightarrow>
               if \<not> out_of_window then Some ([], LoopStopped, c)
               else let (us, j, c1, b1) = read_loop stops (with_reset on_orders_message) i1 (c, b) ms;
                        continue = (\<lambda>i k b. map_option (\<lambda>(vs, st, c2). (us @ vs, st, c2))
                                              (run_order_stream stops clock i k c1 b cs))
                    in if stops j then Some (us, LoopStopped, c1)
                       else if window_active default_maintenance_config (clock k1) then continue (Suc j) (Suc k1) b1
                       else (case backoff_wait stops draw (Suc j) b1 of
                               None \<Rightarrow> None
                             | Some (go, i2, b2) \<Rightarrow>
                                 if go then continue i2 (Suc k1) b2 else Some (us, LoopStopped, c1)))"

text \<open>\<open>OrderClient\<close>'s constructor starts the thread on a client of its own.\<close>

definition order_stream ::
  "(nat \<Rightarrow> bool) \<Rightarrow> (nat \<Rightarrow> time_point) \<Rightarrow> order_client \<Rightarrow> (orders_message list \<times> distribution) list
     \<Rightarrow> (order_update list \<times> loop_status \<times> order_client) option" where
  "order_stream stops clock c conns =
     run_order_stream stops clock 0 0 c (new_backoff default_backoff_config) conns"

section \<open>It delivers the stream and stops\<close>

lemma run_order_stream_result:
  assumes "latched stops" and "window_passes default_maintenance_config clock" and "0 < bo_tick (bo_cfg b)"
  shows "stream_result stops N on_orders_message (\<lambda>c. c) i c (map fst cs) (run_order_stream stops clock i k c b cs)"
  using assms(3)
proof (induction cs arbitrary: i k c b)
  case (Cons x cs)
  obtain ms draw where x: "x = (ms, draw)" by (cases x)
  obtain go i1 k1 where w: "wait_if_active default_maintenance_config stops clock (Suc i) k = Some (go, i1, k1)"
    "Suc i \<le> i1" "\<not> go \<Longrightarrow> stops (i1 - 1)"
    using wait_if_active_ends[OF assms(2), of stops "Suc i" k] by metis
  obtain us j c1 b1 where r: "read_loop stops (with_reset on_orders_message) i1 (c, b) ms = (us, j, c1, b1)"
    by (metis prod_cases4)
  note f = read_loop_feed[OF r]
  obtain go2 i2 b2 where bw: "backoff_wait stops draw (Suc j) b1 = Some (go2, i2, b2)" "Suc j \<le> i2"
    "\<not> go2 \<Longrightarrow> stops (i2 - 1)" "bo_cfg b2 = bo_cfg b1"
    using backoff_wait_ends[of b1 stops draw "Suc j"] f Cons.prems by metis
  let ?window = "window_active default_maintenance_config (clock k1)"
  have next_connection: "stream_result stops N on_orders_message (\<lambda>c. c) i c (map fst (x # cs))
      (map_option (\<lambda>(vs, st, c2). (us @ vs, st, c2)) (run_order_stream stops clock i3 k3 c1 b3 cs))"
    if "\<not> stops i" "\<not> stops j" "Suc j \<le> i3" "bo_cfg b3 = bo_cfg b1" for i3 k3 b3
  proof -
    have "stream_result stops N on_orders_message (\<lambda>c. c) i3 c1 (map fst cs) (run_order_stream stops clock i3 k3 c1 b3 cs)"
      by (rule Cons.IH) (use that f Cons.prems in simp)
    from stream_continues[OF assms(1) that(1) _ read_loop_whole[OF assms(1) r that(2)] this]
    show ?thesis using that f w(2) by (simp add: x)
  qed
  consider "stops i" | (closed) "\<not> stops i" "\<not> go" | (stop) "\<not> stops i" go "stops j"
    | (window) "\<not> stops i" go "\<not> stops j" ?window | (wait) "\<not> stops i" go "\<not> stops j" "\<not> ?window" by blast
  then show ?case
  proof cases
    case window
    then show ?thesis using w r next_connection[of "Suc j" b1 "Suc k1"] by (simp add: x)
  next
    case wait
    then show ?thesis
      using w r bw f next_connection[of i2 b2 "Suc k1"] by (cases go2) (auto simp: x intro: stream_ends)
  qed (use w r f in \<open>auto simp: x intro: stream_ends\<close>)
qed (simp add: stream_idle)

text \<open>
  The order stream's thread reports what the broker sends, in order, and ends when the client
  is shut down. If the clock always leaves the maintenance window again, no wait of the thread lasts
  forever; the updates it reports are an initial part of those for all messages of all connections
  (with the submits of other threads in between), and all of them while the stop flag is not set;
  and once load number \<open>n\<close> of the flag sees it set, the thread has ended before its connection
  number \<open>n + 1\<close>.
\<close>

lemma order_stream_delivers_and_stops:
  assumes "latched stops" and "window_passes default_maintenance_config clock"
  shows "\<exists>us st c'. order_stream stops clock c conns = Some (us, st, c')
    \<and> prefix us (fst (feed_all on_orders_message (\<lambda>c. c) c (map fst conns)))
    \<and> ((\<forall>k. \<not> stops k) \<longrightarrow> feed_all on_orders_message (\<lambda>c. c) c (map fst conns) = (us, c'))
    \<and> (stops n \<and> n < length conns \<longrightarrow> st = LoopStopped)"
  using run_order_stream_result[OF assms, of "new_backoff default_backoff_config" n 0 c conns 0]
  by (simp add: stream_result_def order_stream_def new_backoff_def default_backoff_config_def)

end
