(* ===== verification/App_Run.thy ===== *)
theory App_Run
  imports Main_App Order_Stream
begin

text \<open>
  The running program of \<open>src/main.cpp\<close> as a step relation. A step is what one of its threads does
  without being interfered with: a subscription hands over an event or a bar, a strategy thread
  takes an event from its queue and decides, the order client places an order or gets its answer,
  the order stream reports an order, the account is polled, a watchdog looks for a rollover, the
  token is renewed. Any thread may move at any time and the broker may answer anything.

  The strategy thread's \<open>dispatch\<close> is cut where it calls \<open>submit\<close>, and \<open>submit\<close> where it waits for the
  broker; a decision takes effect when it reads the breaker. The result of \<open>submit\<close> is only logged
  by the runner, so a decision is the \<open>dispatch\<close> of \<open>Strategy_Runner\<close> on an executor that does
  nothing; \<open>dispatch_is_decide_and_submit\<close> joins the parts together again. \<open>placed\<close> records the
  orders given to the executor, with the event and the state of the risk manager they were decided on.
\<close>

section \<open>State\<close>

datatype strategy_pc =
    Polling                                              \<comment> \<open>in \<open>drain_queue\<close> or asleep\<close>
  | Submitting md_event risk_manager order_request       \<comment> \<open>about to call \<open>submit\<close>\<close>
  | Awaiting order_request int                           \<comment> \<open>in the call of \<open>PlaceOrder\<close>\<close>

record placement =
  pl_runner :: nat
  pl_event :: md_event
  pl_risk :: risk_manager
  pl_id :: int
  pl_request :: order_request

record system = app +
  pcs :: "nat \<Rightarrow> strategy_pc"
  placed :: "placement list"

definition boot :: "app \<Rightarrow> system" where
  "boot a = app.extend a \<lparr>pcs = (\<lambda>_. Polling), placed = []\<rparr>"

abbreviation set_runner :: "nat \<Rightarrow> runner \<Rightarrow> system \<Rightarrow> system" where
  "set_runner i rn s \<equiv> s\<lparr>app_runners := (app_runners s)[i := rn]\<rparr>"

section \<open>Steps\<close>

definition decide_env :: "services \<Rightarrow> token_manager \<Rightarrow> string \<Rightarrow> unit runner_env" where
  "decide_env sv tm acc =
     \<lparr>env_libm = sv_libm sv, env_account = acc, env_margin = sv_margin sv, env_now = sv_now sv,
      env_bars = get_bars (sv_bars sv) (tm_jwt tm), env_visit = sv_visit sv, env_submit = (\<lambda>x req. (Inr 0, [], x))\<rparr>"

text \<open>What \<open>dispatch\<close> does up to the call of \<open>submit\<close>, with the request of that call, if any, in \<open>sent\<close>.\<close>

definition decide :: "services \<Rightarrow> token_manager \<Rightarrow> string \<Rightarrow> risk_manager \<Rightarrow> runner \<Rightarrow> md_event \<Rightarrow> unit desk" where
  "decide sv tm acc r rn ev =
     dispatch (decide_env sv tm acc) \<lparr>the_runner = rn, risk = Some r, executor = (), sent = []\<rparr> ev"

definition pc_after :: "md_event \<Rightarrow> risk_manager \<Rightarrow> order_request list \<Rightarrow> strategy_pc" where
  "pc_after ev r reqs = (case reqs of [] \<Rightarrow> Polling | req # _ \<Rightarrow> Submitting ev r req)"

text \<open>The order client's callback: every runner's callback in turn.\<close>

definition notify :: "services \<Rightarrow> system \<Rightarrow> order_update \<Rightarrow> system" where
  "notify sv s u =
     (case broadcast (decide_env sv (app_token s) []) () (Some (app_risk s)) (app_runners s) u of
        (r, rns) \<Rightarrow> s\<lparr>app_risk := the r, app_runners := rns\<rparr>)"

fun from_market :: "md_event \<Rightarrow> bool" where
  "from_market (MdBook e) = True"
| "from_market (MdTrade e) = True"
| "from_market (MdQuote q) = True"
| "from_market _ = False"

inductive app_step :: "system \<Rightarrow> system \<Rightarrow> bool" where
  market_data: "i < length (app_runners s) \<Longrightarrow> from_market ev \<Longrightarrow>
     app_step s (set_runner i (md_callback (app_runners s ! i) ev) s)"
| bar: "i < length (app_runners s) \<Longrightarrow> rn = app_runners s ! i \<Longrightarrow>
     app_step s (set_runner i (rn\<lparr>rn_strategy := snd (on_bar (rn_strategy rn) b)\<rparr>) s)"
| decision: "i < length (app_runners s) \<Longrightarrow> rn = app_runners s ! i \<Longrightarrow> pcs s i = Polling \<Longrightarrow>
     pop (queue rn) = (Some ev, q) \<Longrightarrow> primary_account_id (app_token s) = Some acc \<Longrightarrow>
     d = decide sv (app_token s) acc (app_risk s) (rn\<lparr>queue := q\<rparr>) ev \<Longrightarrow>
     app_step s (set_runner i (the_runner d) s\<lparr>app_risk := the (risk d),
        pcs := (pcs s)(i := pc_after ev (app_risk s) (sent d))\<rparr>)"
| place: "pcs s i = Submitting ev r req \<Longrightarrow> app_exec s = Live c \<Longrightarrow>
     submit_request c req = (Inr (lid, po), c') \<Longrightarrow>
     app_step s (s\<lparr>app_exec := Live c', pcs := (pcs s)(i := Awaiting req lid),
        placed := placed s @ [\<lparr>pl_runner = i, pl_event = ev, pl_risk = r, pl_id = lid, pl_request = req\<rparr>]\<rparr>)"
| refuse: "pcs s i = Submitting ev r req \<Longrightarrow> app_exec s = Live c \<Longrightarrow> submit_request c req = (Inl err, c') \<Longrightarrow>
     app_step s (s\<lparr>app_exec := Live c', pcs := (pcs s)(i := Polling)\<rparr>)"
| answer: "pcs s i = Awaiting req lid \<Longrightarrow> app_exec s = Live c \<Longrightarrow>
     submit_response c req lid rpc now = (res, us, c') \<Longrightarrow>
     app_step s (foldl (notify sv) (s\<lparr>app_exec := Live c', pcs := (pcs s)(i := Polling)\<rparr>) us)"
| dry_run: "pcs s i = Submitting ev r req \<Longrightarrow> app_exec s = DryRun x \<Longrightarrow> dry_submit x req = (Inr lid, x') \<Longrightarrow>
     app_step s (s\<lparr>app_exec := DryRun x', pcs := (pcs s)(i := Polling),
        placed := placed s @ [\<lparr>pl_runner = i, pl_event = ev, pl_risk = r, pl_id = lid, pl_request = req\<rparr>]\<rparr>)"
| order_report: "app_exec s = Live c \<Longrightarrow> on_stream_order now c ord = (u, c') \<Longrightarrow>
     app_step s (notify sv (s\<lparr>app_exec := Live c'\<rparr>) u)"
| poll_account: "app_step s (s\<lparr>app_risk := snd (refresh_account (app_risk s) rpc now)\<rparr>)"
| watchdog: "i < length (app_runners s) \<Longrightarrow>
     app_step s (set_runner i (check_rollover (app_runners s ! i) now) s)"
| renew_token: "on_renewal (app_token s) token = Some (us, tm) \<Longrightarrow> app_step s (s\<lparr>app_token := tm\<rparr>)"

abbreviation app_steps :: "system \<Rightarrow> system \<Rightarrow> bool" where
  "app_steps \<equiv> rtranclp app_step"

inductive reachable :: "services \<Rightarrow> string list \<Rightarrow> string option \<Rightarrow> system \<Rightarrow> bool" for sv argv secret where
  started: "main_start sv argv secret = Running a \<Longrightarrow> reachable sv argv secret (boot a)"
| stepped: "reachable sv argv secret s \<Longrightarrow> app_step s s' \<Longrightarrow> reachable sv argv secret s'"

section \<open>Decisions\<close>

lemma decide_silent: "silent (decide_env sv tm acc) (\<lambda>_. True)"
  by (simp add: silent_def decide_env_def)

text \<open>The parts put together are the \<open>dispatch\<close> of the runner.\<close>

lemma handle_signal_decides:
  "handle_signal (env_of sv tm acc) d g =
     (let d' = handle_signal (decide_env sv tm acc) \<lparr>the_runner = the_runner d, risk = risk d, executor = (), sent = []\<rparr> g;
          d1 = d\<lparr>the_runner := the_runner d', risk := risk d'\<rparr>
      in case sent d' of [] \<Rightarrow> d1 | req # _ \<Rightarrow> submit_order (env_of sv tm acc) d1 req)"
proof -
  note ss = silent_submit(1)[OF decide_silent, simplified]
  have e: "env_account (decide_env sv tm acc) = env_account (env_of sv tm acc)"
    "env_margin (decide_env sv tm acc) = env_margin (env_of sv tm acc)"
    "env_now (decide_env sv tm acc) = env_now (env_of sv tm acc)"
    by (simp_all add: decide_env_def env_of_def)
  show ?thesis
    by (cases d) (auto simp: handle_signal_def ss e Let_def split: option.split sum.split)
qed

lemma dispatch_is_decide_and_submit:
  assumes "risk d = Some r"
  shows "dispatch (env_of sv tm acc) d ev =
     (let d' = decide sv tm acc r (the_runner d) ev;
          d1 = d\<lparr>the_runner := the_runner d', risk := risk d'\<rparr>
      in case sent d' of [] \<Rightarrow> d1 | req # _ \<Rightarrow> submit_order (env_of sv tm acc) d1 req)"
proof -
  have l: "env_libm (decide_env sv tm acc) = env_libm (env_of sv tm acc)" by (simp add: decide_env_def env_of_def)
  have ro: "on_rollover (decide_env sv tm acc) rn sy = on_rollover (env_of sv tm acc) rn sy" for rn sy
    by (simp add: on_rollover_def load_history_def decide_env_def env_of_def Let_def)
  have h: "handle_signal (env_of sv tm acc) (set_strategy d st) g =
     (let d' = handle_signal (decide_env sv tm acc)
          (set_strategy \<lparr>the_runner = the_runner d, risk = Some r, executor = (), sent = []\<rparr> st) g;
          d1 = d\<lparr>the_runner := the_runner d', risk := risk d'\<rparr>
      in case sent d' of [] \<Rightarrow> d1 | req # _ \<Rightarrow> submit_order (env_of sv tm acc) d1 req)" for st g
    using assms handle_signal_decides[of sv tm acc "set_strategy d st" g] by (simp add: Let_def)
  show ?thesis
    unfolding decide_def
    by (cases ev) (auto simp: l ro h assms case_prod_beta Let_def split: option.split list.split)
qed

lemma pop_rest: "queue_ok q0 \<Longrightarrow> pop q0 = (Some ev, q) \<Longrightarrow> queue_ok q \<and> contents q0 = ev # contents q"
  by (erule pop_cases) auto

text \<open>A decision asks for at most one order, in the name of the account, and only after the risk check; only a quote closes.\<close>

fun is_quote :: "md_event \<Rightarrow> bool" where
  "is_quote (MdQuote q) = True"
| "is_quote _ = False"

definition approved :: "risk_manager \<Rightarrow> order_request \<Rightarrow> bool" where
  "approved r req \<longleftrightarrow> (\<exists>rpc now. check rpc now r req = Inr ())"

lemma signal_request:
  assumes "sent (handle_signal (decide_env sv tm acc) d g) = sent d @ [req]" "risk d = Some r"
  shows "req = request_of acc g \<and> (sig_direction g \<noteq> DirClose \<longrightarrow> approved r req)"
  using assms
  by (auto simp: handle_signal_def silent_submit(1)[OF decide_silent] approved_def decide_env_def Let_def
      split: if_splits option.splits sum.splits)

lemma signal_sends_one: "\<exists>reqs. sent (handle_signal E d g) = sent d @ reqs \<and> length reqs \<le> 1"
  by (auto simp: handle_signal_def Let_def split: option.split sum.split)

lemma decide_request:
  assumes "sent (decide sv tm acc r rn ev) = req # reqs"
  shows "req_client_id req = acc \<and> (approved r req \<or> is_quote ev \<and> req_side req = Sell)
    \<and> req_price req = Fin 0 \<and> req_type req = Market
    \<and> (is_quote ev \<or> (\<exists>M op g. cs_entry M (rn_strategy rn) op = Some g \<and> req_quantity req = sig_quantity g))"
proof -
  let ?d = "\<lparr>the_runner = rn, risk = Some r, executor = (), sent = []\<rparr>"
  show ?thesis
  proof (cases rule: dispatch_cases[of "decide_env sv tm acc" ?d ev])
    case (signal s g)
    let ?h = "handle_signal (decide_env sv tm acc) (set_strategy ?d s) g"
    have "sent ?h = req # reqs" using assms signal(1) by (simp add: decide_def)
    moreover from signal_sends_one[of "decide_env sv tm acc" "set_strategy ?d s" g] have "length (sent ?h) \<le> 1" by auto
    ultimately have "sent ?h = sent (set_strategy ?d s) @ [req]" by simp
    then have "req = request_of acc g \<and> (sig_direction g \<noteq> DirClose \<longrightarrow> approved r req)"
      by (rule signal_request) simp
    then show ?thesis using signal(3,6-8) by (auto simp: request_of_def Let_def)
  qed (use assms in \<open>auto simp: decide_def\<close>)
qed

text \<open>What a decision can do to the breaker: nothing when it asks for an order or rolls over.\<close>

lemma decide_risk:
  obtains r' where "risk (decide sv tm acc r rn ev) = Some r'" "tripped r \<Longrightarrow> r' = r"
    "sent (decide sv tm acc r rn ev) \<noteq> [] \<Longrightarrow> r' = r" "ev = MdRollover sy \<Longrightarrow> r' = r"
proof -
  let ?d = "\<lparr>the_runner = rn, risk = Some r, executor = (), sent = []\<rparr>"
  have "\<exists>r'. risk (handle_signal (decide_env sv tm acc) d g) = Some r' \<and> (tripped r \<longrightarrow> r' = r)
      \<and> (sent (handle_signal (decide_env sv tm acc) d g) \<noteq> [] \<longrightarrow> r' = r)"
    if "risk d = Some r" "sent d = []" for d :: "unit desk" and g
    using that gate.trip_idle[of r]
    by (auto simp: handle_signal_def silent_submit(1)[OF decide_silent] Let_def split: sum.split option.split)
  then have "\<exists>r'. risk (decide sv tm acc r rn ev) = Some r' \<and> (tripped r \<longrightarrow> r' = r)
      \<and> (sent (decide sv tm acc r rn ev) \<noteq> [] \<longrightarrow> r' = r) \<and> (ev = MdRollover sy \<longrightarrow> r' = r)"
    by (cases rule: dispatch_cases[of "decide_env sv tm acc" ?d ev]) (auto simp: decide_def)
  with that show ?thesis by blast
qed

lemma decide_symbol:
  "queue_ok (queue rn) \<Longrightarrow> active_symbol (the_runner (decide sv tm acc r rn ev)) = rolled (active_symbol rn) ev"
  using dispatch_grown(2)[of "\<lparr>the_runner = rn, risk = Some r, executor = (), sent = []\<rparr>" "decide_env sv tm acc" ev]
  by (simp add: decide_def)

section \<open>The runners\<close>

text \<open>A runner on contracts of its ticker: its active symbol and every rollover that waits in its queue.\<close>

definition runner_ok :: "string \<Rightarrow> runner \<Rightarrow> bool" where
  "runner_ok ticker rn \<longleftrightarrow> base_ticker rn = ticker \<and> queue_ok (queue rn) \<and> subs_ok rn
     \<and> prefix ticker (security_code (active_symbol rn))
     \<and> (\<forall>sy. MdRollover sy \<in> set (contents (queue rn)) \<longrightarrow> prefix ticker (security_code sy))"

lemma nearest_contract_prefix: "prefix ticker (security_code (nearest_contract ticker days now))"
  by (simp add: nearest_contract_def case_prod_beta Let_def)

lemma runner_ok_push:
  assumes "runner_ok t rn" "\<forall>sy. ev = MdRollover sy \<longrightarrow> prefix t (security_code sy)"
  shows "runner_ok t (rn\<lparr>queue := snd (push (queue rn) ev)\<rparr>)"
  using assms push_cases[of "queue rn" ev] by (auto simp: runner_ok_def subs_ok_def)

lemma runner_ok_steps:
  assumes "runner_ok t rn"
  shows "from_market ev \<Longrightarrow> runner_ok t (md_callback rn ev)"
    and "runner_ok t (rn\<lparr>rn_strategy := st\<rparr>)"
    and "runner_ok t (deliver u rn)"
    and "runner_ok t (check_rollover rn now)"
proof -
  show "runner_ok t (md_callback rn ev)" if "from_market ev"
    unfolding md_callback_def by (rule runner_ok_push[OF assms]) (use that in auto)
  show "runner_ok t (rn\<lparr>rn_strategy := st\<rparr>)" using assms by (simp add: runner_ok_def subs_ok_def)
  show "runner_ok t (deliver u rn)"
    using assms runner_ok_push[OF assms, of "MdUpdate u"] by (simp add: deliver_def enqueue_def)
  have "base_ticker rn = t" using assms by (simp add: runner_ok_def)
  then show "runner_ok t (check_rollover rn now)"
    using assms runner_ok_push[OF assms] nearest_contract_prefix[of t] by (auto simp: check_rollover_def Let_def)
qed

lemma runner_ok_decide:
  assumes "runner_ok t rn" "pop (queue rn) = (Some ev, q)"
  shows "runner_ok t (the_runner (decide sv tm acc r (rn\<lparr>queue := q\<rparr>) ev))"
proof -
  let ?d = "\<lparr>the_runner = rn\<lparr>queue := q\<rparr>, risk = Some r, executor = (), sent = []\<rparr>"
  let ?d' = "dispatch (decide_env sv tm acc) ?d ev"
  have q: "queue_ok q" "contents (queue rn) = ev # contents q"
    using pop_rest[of "queue rn" ev q] assms by (auto simp: runner_ok_def)
  have "queue (the_runner ?d') = q" using silent_dispatch(3)[OF decide_silent, where d = ?d] by simp
  moreover have "active_symbol (the_runner ?d') = rolled (active_symbol rn) ev"
    using dispatch_grown(2)[of ?d] q(1) by simp
  moreover have "subs_ok (the_runner ?d')"
    by (rule dispatch_subs) (use assms(1) in \<open>simp add: runner_ok_def subs_ok_def\<close>)
  moreover have "prefix t (security_code (rolled (active_symbol rn) ev))"
    using assms(1) q(2) by (cases ev) (auto simp: runner_ok_def)
  ultimately show ?thesis using assms(1) q by (simp add: decide_def runner_ok_def del: dispatch.simps)
qed

definition tickers :: "string list" where
  "tickers = [''Si'', ''RI'', ''GD'', ''MX'', ''BR'']"

definition runners_ok :: "runner list \<Rightarrow> bool" where
  "runners_ok rns \<longleftrightarrow> list_all2 runner_ok tickers rns"

lemma runners_ok_update:
  "runners_ok rns \<Longrightarrow> i < length rns \<Longrightarrow> (\<And>t. runner_ok t (rns ! i) \<Longrightarrow> runner_ok t rn) \<Longrightarrow> runners_ok (rns[i := rn])"
  unfolding runners_ok_def by (auto simp: list_all2_conv_all_nth nth_list_update)

lemma runners_ok_deliver: "runners_ok rns \<Longrightarrow> runners_ok (map (deliver u) rns)"
  unfolding runners_ok_def by (auto simp: list_all2_conv_all_nth runner_ok_steps(3))

lemma notify_fields [frame_simps]:
  "app_runners (notify sv s u) = map (deliver u) (app_runners s)" "app_exec (notify sv s u) = app_exec s"
  "app_token (notify sv s u) = app_token s" "pcs (notify sv s u) = pcs s" "placed (notify sv s u) = placed s"
  "tripped (app_risk (notify sv s u)) = tripped (app_risk s)"
proof -
  have f: "(map_option g ^^ n) (Some r) = Some ((g ^^ n) r)" for g :: "risk_manager \<Rightarrow> risk_manager" and n r
    by (induction n) simp_all
  have t: "tripped ((g ^^ n) r) = tripped r" if "\<And>r. tripped (g r) = tripped r" for g :: "risk_manager \<Rightarrow> risk_manager" and n r
    using that by (induction n) simp_all
  show "tripped (app_risk (notify sv s u)) = tripped (app_risk s)"
    by (simp add: notify_def broadcast_routes f t)
qed (simp_all add: notify_def broadcast_routes)

lemma notifies_fields [frame_simps]:
  "runners_ok (app_runners s) \<Longrightarrow> runners_ok (app_runners (foldl (notify sv) s us))"
  "app_exec (foldl (notify sv) s us) = app_exec s" "app_token (foldl (notify sv) s us) = app_token s"
  "pcs (foldl (notify sv) s us) = pcs s" "placed (foldl (notify sv) s us) = placed s"
  "tripped (app_risk (foldl (notify sv) s us)) = tripped (app_risk s)"
  by (induction us arbitrary: s) (simp_all add: frame_simps runners_ok_deliver)

lemma runners_ok_distinct: "runners_ok rns \<Longrightarrow> length rns = 5 \<and> distinct (map active_symbol rns)"
proof -
  assume a: "runners_ok rns"
  then obtain a b c d e where r: "rns = [a, b, c, d, e]"
    by (auto simp: runners_ok_def tickers_def list_all2_Cons1)
  have "take 2 (security_code (active_symbol rn)) = t" if "runner_ok t rn" "length t = 2" for t rn
    using that by (auto simp: runner_ok_def prefix_def)
  then have "map (take 2 \<circ> security_code \<circ> active_symbol) rns = tickers"
    using a by (simp add: r runners_ok_def tickers_def)
  then have "distinct (map (take 2 \<circ> security_code) (map active_symbol rns))" by (simp add: tickers_def)
  then show ?thesis by (simp only: distinct_map) (simp add: r)
qed

section \<open>Invariants\<close>

lemma step_runners: "app_step s s' \<Longrightarrow> runners_ok (app_runners s) \<Longrightarrow> runners_ok (app_runners s')"
proof (induction rule: app_step.induct)
  case (decision i s rn ev q acc d sv)
  then show ?case by (auto intro!: runners_ok_update runner_ok_decide)
qed (auto intro!: runners_ok_update runner_ok_steps notifies_fields(1) runners_ok_deliver simp: frame_simps)

lemma step_account: "app_step s s' \<Longrightarrow> primary_account_id (app_token s') = primary_account_id (app_token s)"
  by (induction rule: app_step.induct)
    (auto simp: frame_simps on_renewal_def store_jwt_def primary_account_id_def split: list.split)

definition request_ok :: "string \<Rightarrow> md_event \<Rightarrow> risk_manager \<Rightarrow> order_request \<Rightarrow> bool" where
  "request_ok acc ev r req \<longleftrightarrow> req_client_id req = acc \<and> (approved r req \<or> is_quote ev \<and> req_side req = Sell)"

definition pc_ok :: "string \<Rightarrow> strategy_pc \<Rightarrow> bool" where
  "pc_ok acc pc = (case pc of Submitting ev r req \<Rightarrow> request_ok acc ev r req | _ \<Rightarrow> True)"

definition placement_ok :: "string \<Rightarrow> bool \<Rightarrow> placement \<Rightarrow> bool" where
  "placement_ok acc live_run p \<longleftrightarrow> request_ok acc (pl_event p) (pl_risk p) (pl_request p)
     \<and> (live_run \<longrightarrow> validate (pl_request p) = None)"

lemma step_pcs:
  assumes "app_step s s'" "primary_account_id (app_token s) = Some acc" "\<forall>i. pc_ok acc (pcs s i)"
  shows "\<forall>i. pc_ok acc (pcs s' i)"
  using assms
proof (induction rule: app_step.induct)
  case (decision i s rn ev q acc' d sv)
  have "pc_ok acc (pc_after ev (app_risk s) (sent d))"
    using decision decide_request[of sv "app_token s" acc "app_risk s" "rn\<lparr>queue := q\<rparr>" ev]
    by (auto simp: pc_ok_def pc_after_def request_ok_def split: list.split)
  then show ?case using decision by simp
qed (auto simp: frame_simps pc_ok_def)

definition is_live :: "app_executor \<Rightarrow> bool" where
  "is_live x = (case x of Live _ \<Rightarrow> True | DryRun _ \<Rightarrow> False)"

lemma step_live: "app_step s s' \<Longrightarrow> is_live (app_exec s') = is_live (app_exec s)"
  by (induction rule: app_step.induct) (simp_all add: frame_simps is_live_def)

lemma submit_request_ok:
  "submit_request c req = (Inr (lid, po), c') \<Longrightarrow>
   validate req = None \<and> lid = id_counter c \<and> id_counter c' = wrap64 (id_counter c + 1)"
  by (auto simp: submit_request_def next_id_def split: option.splits)

lemma step_placed:
  assumes "app_step s s'" "\<forall>i. pc_ok acc (pcs s i)" "list_all (placement_ok acc (is_live (app_exec s))) (placed s)"
  shows "list_all (placement_ok acc (is_live (app_exec s'))) (placed s')"
  using assms
proof (induction rule: app_step.induct)
  case (place s i ev r req c lid po c')
  have "request_ok acc ev r req" using place.prems(1) place.hyps(1) by (auto simp: pc_ok_def dest: spec[of _ i])
  then show ?case using place submit_request_ok[OF place.hyps(3)] by (auto simp: placement_ok_def is_live_def)
next
  case (dry_run s i ev r req x lid x')
  have "request_ok acc ev r req" using dry_run.prems(1) dry_run.hyps(1) by (auto simp: pc_ok_def dest: spec[of _ i])
  then show ?case using dry_run by (auto simp: placement_ok_def is_live_def)
qed (auto simp: frame_simps is_live_def)

section \<open>Identifiers\<close>

text \<open>The counter of the executor stands for the number of orders placed so far.\<close>

definition counter_ok :: "system \<Rightarrow> bool" where
  "counter_ok s = (case app_exec s of
       Live c \<Rightarrow> id_counter c = wrap64 (int (length (placed s)) + 1)
     | DryRun x \<Rightarrow> dry_id x = wrap64 (int (length (placed s))))"

lemma client_counters:
  "submit_request c req = (Inl err, c') \<Longrightarrow> id_counter c' = id_counter c"
  "submit_response c req lid rpc now = (res, us, c') \<Longrightarrow> id_counter c' = id_counter c"
  "on_stream_order now c ord = (u, c') \<Longrightarrow> id_counter c' = id_counter c"
proof -
  show "submit_request c req = (Inl err, c') \<Longrightarrow> id_counter c' = id_counter c"
    by (auto simp: submit_request_def split: option.splits prod.splits)
  show "submit_response c req lid rpc now = (res, us, c') \<Longrightarrow> id_counter c' = id_counter c"
    by (auto simp: submit_response_def upsert_def Let_def split: sum.splits)
  show "on_stream_order now c ord = (u, c') \<Longrightarrow> id_counter c' = id_counter c"
    by (auto simp: on_stream_order_def upsert_def Let_def)
qed

lemma step_counter: "app_step s s' \<Longrightarrow> counter_ok s \<Longrightarrow> counter_ok s'"
  by (induction rule: app_step.induct)
    (auto simp: counter_ok_def frame_simps client_counters submit_request_ok dry_submit_def Let_def
      algebra_simps wrap64_Suc[unfolded add.commute[of _ "1::int"]] split: app_executor.splits)

section \<open>Prices\<close>

text \<open>
  No update the program ever sees has a price: the orders it sends have none, and the stream's
  reports have none. So no strategy ever has an entry price, no quote makes one close, and all
  orders are entries of at most the one lot that \<open>main\<close> configures.
\<close>

definition small_entry :: "md_event \<Rightarrow> order_request \<Rightarrow> bool" where
  "small_entry ev req \<longleftrightarrow> \<not> is_quote ev \<and> req_price req = Fin 0 \<and> req_type req = Market
     \<and> (req_quantity req = 0 \<or> req_quantity req = 1)"

definition unpriced_runner :: "runner \<Rightarrow> bool" where
  "unpriced_runner rn \<longleftrightarrow> entry_price (rn_strategy rn) = Fin 0 \<and> queue_ok (queue rn)
     \<and> base_qty (cs_cfg (rn_strategy rn)) = 1
     \<and> (\<forall>u. MdUpdate u \<in> set (contents (queue rn)) \<longrightarrow> upd_price u = Fin 0)"

definition unpriced_pc :: "strategy_pc \<Rightarrow> bool" where
  "unpriced_pc pc = (case pc of Polling \<Rightarrow> True | Submitting ev r req \<Rightarrow> small_entry ev req
     | Awaiting req lid \<Rightarrow> req_price req = Fin 0)"

definition unpriced :: "system \<Rightarrow> bool" where
  "unpriced s \<longleftrightarrow> list_all unpriced_runner (app_runners s) \<and> (\<forall>i. unpriced_pc (pcs s i))
     \<and> list_all (\<lambda>p. small_entry (pl_event p) (pl_request p)) (placed s)"

lemma unpriced_strategy:
  assumes "entry_price s = Fin 0"
  shows "entry_price (snd (on_bar s b)) = Fin 0" "entry_price (snd (on_quote s q)) = Fin 0"
    "entry_price (on_session_open s) = Fin 0" "entry_price (update_bbo s x y) = Fin 0"
    "fst (on_quote s q) = no_signal"
proof -
  have h: "entry_price (handle_session_open s ts) = Fin 0" for ts
    using handle_session_open_cases[of s ts] assms by (auto simp: on_session_open_def)
  show "entry_price (snd (on_bar s b)) = Fin 0"
    using assms h by (simp add: on_bar_def Let_def split: bar_timeframe.split)
  show "entry_price (snd (on_quote s q)) = Fin 0" using assms h by (simp add: on_quote_state)
  have "no_exit s" using assms lit_nano(1) by (simp add: no_exit_def)
  then show "fst (on_quote s q) = no_signal" by (rule no_exit_no_signal)
qed (use assms in \<open>simp_all add: on_session_open_def update_bbo_def\<close>)

lemma unpriced_history:
  "entry_price (rn_strategy rn) = Fin 0 \<Longrightarrow> entry_price (rn_strategy (load_history E rn sy)) = Fin 0"
proof -
  have "entry_price s = Fin 0 \<Longrightarrow> entry_price (foldl (\<lambda>s b. snd (on_bar s b)) s bars) = Fin 0" for s bars
    by (induction bars arbitrary: s) (simp_all add: unpriced_strategy)
  then show "entry_price (rn_strategy rn) = Fin 0 \<Longrightarrow> ?thesis" by (simp add: load_history_def Let_def split: sum.split)
qed

lemma unpriced_dispatch:
  assumes "entry_price (rn_strategy (the_runner d)) = Fin 0" "\<forall>u. ev = MdUpdate u \<longrightarrow> upd_price u = Fin 0"
  shows "entry_price (rn_strategy (the_runner (dispatch E d ev))) = Fin 0"
    and "is_quote ev \<Longrightarrow> sent (dispatch E d ev) = sent d"
  using assms
  by (cases ev; auto simp: unpriced_strategy unpriced_history on_order_update_def on_rollover_def start_subscriptions_def
      unsubscribe_all_def no_signal_def Let_def case_prod_beta split: option.split)+

lemma unpriced_decide:
  assumes "unpriced_runner rn" "pop (queue rn) = (Some ev, q)"
  shows "unpriced_runner (the_runner (decide sv tm acc r (rn\<lparr>queue := q\<rparr>) ev))"
    and "unpriced_pc (pc_after ev r' (sent (decide sv tm acc r (rn\<lparr>queue := q\<rparr>) ev)))"
proof -
  let ?d = "\<lparr>the_runner = rn\<lparr>queue := q\<rparr>, risk = Some r, executor = (), sent = []\<rparr>"
  let ?d' = "dispatch (decide_env sv tm acc) ?d ev"
  have q: "queue_ok q" "contents (queue rn) = ev # contents q"
    using pop_rest[of "queue rn" ev q] assms by (auto simp: unpriced_runner_def)
  have u: "\<forall>u. ev = MdUpdate u \<longrightarrow> upd_price u = Fin 0" "entry_price (rn_strategy (the_runner ?d)) = Fin 0"
    using assms(1) q(2) by (auto simp: unpriced_runner_def)
  have "queue (the_runner ?d') = q" using silent_dispatch(3)[OF decide_silent, where d = ?d] by simp
  then show "unpriced_runner (the_runner (decide sv tm acc r (rn\<lparr>queue := q\<rparr>) ev))"
    using unpriced_dispatch(1)[OF u(2,1)] assms(1) q by (auto simp: decide_def unpriced_runner_def simp del: dispatch.simps)
  show "unpriced_pc (pc_after ev r' (sent (decide sv tm acc r (rn\<lparr>queue := q\<rparr>) ev)))"
  proof (cases "sent ?d'")
    case (Cons req reqs)
    then have "\<not> is_quote ev" using unpriced_dispatch(2)[OF u(2,1)] by auto
    moreover have "sent (decide sv tm acc r (rn\<lparr>queue := q\<rparr>) ev) = req # reqs" using Cons by (simp add: decide_def)
    note dr = decide_request[OF this]
    ultimately obtain M op g where g: "cs_entry M (rn_strategy rn) op = Some g" "req_quantity req = sig_quantity g"
      using dr by auto
    have "req_quantity req = 0 \<or> req_quantity req = 1"
      using entry_quantity[OF g(1)] g(2) assms(1) by (auto simp: unpriced_runner_def split: if_splits)
    then show ?thesis using Cons dr \<open>\<not> is_quote ev\<close>
      by (simp add: decide_def pc_after_def unpriced_pc_def small_entry_def del: dispatch.simps)
  qed (simp add: decide_def pc_after_def unpriced_pc_def del: dispatch.simps)
qed

lemma unpriced_push:
  assumes "unpriced_runner rn" "\<forall>u. ev = MdUpdate u \<longrightarrow> upd_price u = Fin 0"
  shows "unpriced_runner (rn\<lparr>queue := snd (push (queue rn) ev)\<rparr>)"
  using assms push_cases[of "queue rn" ev] by (auto simp: unpriced_runner_def)

lemma unpriced_update: "unpriced s \<Longrightarrow> i < length (app_runners s) \<Longrightarrow> unpriced_runner rn \<Longrightarrow> unpriced (set_runner i rn s)"
  by (auto simp: unpriced_def list_all_length nth_list_update)

lemma unpriced_notify: "unpriced s \<Longrightarrow> upd_price u = Fin 0 \<Longrightarrow> unpriced (notify sv s u)"
  using unpriced_push[of _ "MdUpdate u"]
  by (auto simp: unpriced_def frame_simps list_all_iff deliver_def enqueue_def)

lemma unpriced_notifies:
  "unpriced s \<Longrightarrow> \<forall>u \<in> set us. upd_price u = Fin 0 \<Longrightarrow> unpriced (foldl (notify sv) s us)"
  by (induction us arbitrary: s) (simp_all add: unpriced_notify)

lemma updates_unpriced:
  "submit_response c req lid rpc now = (res, us, c') \<Longrightarrow> req_price req = Fin 0 \<Longrightarrow> u \<in> set us \<Longrightarrow> upd_price u = Fin 0"
  by (auto simp: submit_response_def upsert_def Let_def split: sum.splits)

lemma step_unpriced: "app_step s s' \<Longrightarrow> unpriced s \<Longrightarrow> unpriced s'"
proof (induction rule: app_step.induct)
  case (market_data i s ev)
  then have "unpriced_runner (md_callback (app_runners s ! i) ev)" unfolding md_callback_def
    by (intro unpriced_push) (auto simp: unpriced_def list_all_length)
  then show ?case using market_data unpriced_update by blast
next
  case (bar i s rn b)
  then have "unpriced_runner (rn\<lparr>rn_strategy := snd (on_bar (rn_strategy rn) b)\<rparr>)"
    by (auto simp: unpriced_def list_all_length unpriced_runner_def unpriced_strategy)
  then show ?case using bar unpriced_update by blast
next
  case (decision i s rn ev q acc d sv)
  then have "unpriced_runner rn" by (auto simp: unpriced_def list_all_length)
  note u = unpriced_decide[OF this decision.hyps(4)]
  show ?case using unpriced_update[OF decision.prems decision.hyps(1) u(1)] decision.hyps(6) u(2)
    by (simp add: unpriced_def)
next
  case (place s i ev r req c lid po c')
  then have "unpriced_pc (Submitting ev r req)" by (metis unpriced_def)
  then show ?case using place.prems by (auto simp: unpriced_def unpriced_pc_def small_entry_def)
next
  case (dry_run s i ev r req x lid x')
  then have "unpriced_pc (Submitting ev r req)" by (metis unpriced_def)
  then show ?case using dry_run.prems by (auto simp: unpriced_def unpriced_pc_def small_entry_def)
next
  case (answer s i req lid c rpc now res us c' sv)
  then have "unpriced_pc (Awaiting req lid)" by (metis unpriced_def)
  then have "\<forall>u \<in> set us. upd_price u = Fin 0"
    using updates_unpriced[OF answer.hyps(3)] by (simp add: unpriced_pc_def)
  moreover have "unpriced (s\<lparr>app_exec := Live c', pcs := (pcs s)(i := Polling)\<rparr>)"
    using answer.prems by (simp add: unpriced_def unpriced_pc_def)
  ultimately show ?case by (intro unpriced_notifies)
next
  case (order_report s c now ord u c' sv)
  have "upd_price u = Fin 0" using order_report.hyps(2) by (auto simp: on_stream_order_def upsert_def Let_def)
  moreover have "unpriced (s\<lparr>app_exec := Live c'\<rparr>)" using order_report.prems by (simp add: unpriced_def)
  ultimately show ?case by (intro unpriced_notify)
next
  case (watchdog i s now)
  have "unpriced_runner (app_runners s ! i)" using watchdog by (auto simp: unpriced_def list_all_length)
  then have "unpriced_runner (check_rollover (app_runners s ! i) now)"
    by (auto simp: check_rollover_def Let_def intro: unpriced_push)
  then show ?case using watchdog unpriced_update by blast
qed (auto simp: unpriced_def unpriced_pc_def)

section \<open>The start\<close>

lemma main_start_running:
  assumes "main_start sv argv secret = Running a"
  obtains acc where "primary_account_id (app_token a) = Some acc"
    "app_runners a = map (make_runner (env_of sv (app_token a) acc)) make_symbol_configs"
    "app_exec a = make_executor (''--dry-run'' \<in> set (tl argv)) acc"
  using assms by (auto simp: main_start_def parse_args_flags Let_def split: option.splits sum.splits prod.splits)

lemma make_runner_ok: "runner_ok (sc_ticker sc) (make_runner E sc)"
proof -
  have "base_ticker (make_runner E sc) = sc_ticker sc"
    by (simp add: make_runner_def new_runner_def start_subscriptions_def Let_def)
  then show ?thesis using queue_ok_new
    by (simp add: runner_ok_def make_runner_subs make_runner_fields nearest_contract_prefix)
qed

lemma make_runner_unpriced:
  assumes "sc \<in> set make_symbol_configs"
  shows "unpriced_runner (make_runner E sc)"
proof -
  have "entry_price (rn_strategy (make_runner E sc)) = Fin 0"
    by (simp add: make_runner_def new_runner_def start_subscriptions_def new_confluence_def unpriced_history Let_def)
  moreover have "base_qty (cs_cfg (rn_strategy (make_runner E sc))) = sc_base_qty sc"
    by (simp add: make_runner_def new_runner_def start_subscriptions_def new_confluence_def strategy_config_def Let_def)
  ultimately show ?thesis using queue_ok_new assms by (auto simp: unpriced_runner_def make_runner_fields make_symbol_configs_def)
qed

lemma boot_inv:
  assumes "main_start sv argv secret = Running a"
  shows "runners_ok (app_runners (boot a))" and "counter_ok (boot a)"
    and "is_live (app_exec (boot a)) = (''--dry-run'' \<notin> set (tl argv))"
    and "\<exists>acc. primary_account_id (app_token (boot a)) = Some acc"
    and "pcs (boot a) = (\<lambda>_. Polling)" "placed (boot a) = []" "unpriced (boot a)"
proof -
  obtain acc where a: "primary_account_id (app_token a) = Some acc"
    "app_runners a = map (make_runner (env_of sv (app_token a) acc)) make_symbol_configs"
    "app_exec a = make_executor (''--dry-run'' \<in> set (tl argv)) acc" using main_start_running[OF assms] .
  have f: "app_runners (boot a) = app_runners a" "app_exec (boot a) = app_exec a" "app_token (boot a) = app_token a"
    "placed (boot a) = []" "pcs (boot a) = (\<lambda>_. Polling)" by (simp_all add: boot_def app.extend_def)
  have t: "tickers = map sc_ticker make_symbol_configs" by (simp add: tickers_def make_symbol_configs_def)
  show "runners_ok (app_runners (boot a))"
    unfolding runners_ok_def f a(2) t by (simp add: list_all2_map1 list_all2_map2 make_runner_ok list_all2_same)
  show "counter_ok (boot a)" by (simp add: counter_ok_def f a(3) make_executor_def new_order_client_def)
  show "is_live (app_exec (boot a)) = (''--dry-run'' \<notin> set (tl argv))"
    by (simp add: f a(3) is_live_def make_executor_def)
  show "\<exists>acc. primary_account_id (app_token (boot a)) = Some acc" using a(1) f by simp
  show "unpriced (boot a)" by (simp add: unpriced_def unpriced_pc_def f a(2) list_all_iff make_runner_unpriced)
qed (simp_all add: boot_def app.extend_def)

lemma placed_grow: "app_steps s s' \<Longrightarrow> \<exists>new. placed s' = placed s @ new"
proof (induction rule: rtranclp_induct)
  case (step t u)
  have "\<exists>new. placed u = placed t @ new" using step.hyps(2)
    by (induction rule: app_step.induct) (auto simp: frame_simps)
  then show ?case using step.IH by auto
qed simp

text \<open>The invariant of the running program, for the account it logged in to and the kind of its executor.\<close>

definition app_inv :: "string \<Rightarrow> bool \<Rightarrow> system \<Rightarrow> bool" where
  "app_inv acc live_run s \<longleftrightarrow>
     runners_ok (app_runners s) \<and> counter_ok s \<and> unpriced s \<and> is_live (app_exec s) = live_run
     \<and> primary_account_id (app_token s) = Some acc \<and> (\<forall>i. pc_ok acc (pcs s i))
     \<and> list_all (placement_ok acc live_run) (placed s)"

lemma app_inv_boot:
  assumes "main_start sv argv secret = Running a"
  obtains acc where "app_inv acc (''--dry-run'' \<notin> set (tl argv)) (boot a)"
  using boot_inv[OF assms] that by (auto simp: app_inv_def pc_ok_def)

lemma app_inv_step:
  assumes "app_inv acc live_run s" "app_step s s'"
  shows "app_inv acc live_run s'"
  using assms(1) step_runners[OF assms(2)] step_counter[OF assms(2)] step_unpriced[OF assms(2)] step_live[OF assms(2)]
    step_account[OF assms(2)] step_pcs[OF assms(2), of acc] step_placed[OF assms(2), of acc]
  unfolding app_inv_def by auto

lemma reachable_steps:
  assumes "reachable sv argv secret s"
  obtains a where "main_start sv argv secret = Running a" "app_steps (boot a) s"
  using assms by (induction rule: reachable.induct) (blast intro: rtranclp.rtrancl_into_rtrancl)+

lemma reachable_inv:
  assumes "reachable sv argv secret s"
  obtains acc where "app_inv acc (''--dry-run'' \<notin> set (tl argv)) s"
proof -
  have "\<exists>acc. app_inv acc (''--dry-run'' \<notin> set (tl argv)) s" using assms
    by (induction rule: reachable.induct) (blast elim: app_inv_boot intro: app_inv_step)+
  with that show ?thesis by blast
qed

end
