(* ===== verification/Trading_Spec.thy ===== *)
theory Trading_Spec
  imports App_Run
begin

text \<open>
  What the program promises, without its threads: a small machine that knows the state of the
  breaker, the contract of each runner, the order each runner has got through the risk check, and
  the orders given to the executor. The running program of \<open>App_Run\<close> implements it step by step.
\<close>

section \<open>The abstract machine\<close>

record trading =
  t_breaker :: bool
  t_contracts :: "symbol list"
  t_approved :: "nat \<Rightarrow> order_request option"
  t_orders :: "(nat \<times> int \<times> order_request) list"

definition trading_start :: "symbol list \<Rightarrow> trading" where
  "trading_start syms = \<lparr>t_breaker = False, t_contracts = syms, t_approved = (\<lambda>_. None), t_orders = []\<rparr>"

definition allowed_request :: "string \<Rightarrow> order_request \<Rightarrow> bool" where
  "allowed_request acc req \<longleftrightarrow> req_client_id req = acc \<and> req_type req = Market \<and> req_quantity req \<in> {0, 1}"

text \<open>
  The breaker trips and stays tripped. A runner rolls over to another contract of its ticker. While
  the breaker is not tripped, a runner without a pending order may get one approved. A pending order
  is withdrawn, or placed under the next id; on a live run it is placed only if it asks for a lot.
\<close>

inductive trading_step :: "string \<Rightarrow> bool \<Rightarrow> trading \<Rightarrow> trading \<Rightarrow> bool" for acc live_run where
  trip: "trading_step acc live_run t (t\<lparr>t_breaker := True\<rparr>)"
| roll: "i < length (t_contracts t) \<Longrightarrow>
     take 2 (security_code sy) = take 2 (security_code (t_contracts t ! i)) \<Longrightarrow>
     trading_step acc live_run t (t\<lparr>t_contracts := (t_contracts t)[i := sy]\<rparr>)"
| approve: "i < length (t_contracts t) \<Longrightarrow> \<not> t_breaker t \<Longrightarrow> t_approved t i = None \<Longrightarrow> allowed_request acc req \<Longrightarrow>
     trading_step acc live_run t (t\<lparr>t_approved := (t_approved t)(i := Some req)\<rparr>)"
| withdraw: "t_approved t i = Some req \<Longrightarrow>
     trading_step acc live_run t (t\<lparr>t_approved := (t_approved t)(i := None)\<rparr>)"
| order: "t_approved t i = Some req \<Longrightarrow> (live_run \<longrightarrow> req_quantity req = 1) \<Longrightarrow>
     trading_step acc live_run t (t\<lparr>t_approved := (t_approved t)(i := None),
        t_orders := t_orders t @ [(i, wrap64 (int (length (t_orders t)) + 1), req)]\<rparr>)"

section \<open>What it guarantees\<close>

definition order_ids :: "trading \<Rightarrow> int list" where
  "order_ids t = map (\<lambda>(i, n, req). n) (t_orders t)"

definition ids_in_order :: "trading \<Rightarrow> bool" where
  "ids_in_order t \<longleftrightarrow> order_ids t = map (\<lambda>k. wrap64 (int k)) [1..<Suc (length (t_orders t))]"

lemma trading_ids: "trading_step acc live_run t t' \<Longrightarrow> ids_in_order t \<Longrightarrow> ids_in_order t'"
  by (induction rule: trading_step.induct) (auto simp: ids_in_order_def order_ids_def algebra_simps)

text \<open>The orders of one runner, and the orders it has sent and may still send without a new approval.\<close>

definition runner_orders :: "nat \<Rightarrow> (nat \<times> int \<times> order_request) list \<Rightarrow> order_request list" where
  "runner_orders i os = map (\<lambda>(j, n, req). req) (filter (\<lambda>(j, n, req). j = i) os)"

definition pending :: "trading \<Rightarrow> nat \<Rightarrow> order_request list" where
  "pending t i = (case t_approved t i of None \<Rightarrow> [] | Some req \<Rightarrow> [req])"

lemma runner_orders_append [simp]: "runner_orders i (xs @ ys) = runner_orders i xs @ runner_orders i ys"
  by (simp add: runner_orders_def)

lemma trading_halts:
  assumes "trading_step acc live_run t t'" "t_breaker t"
  shows "t_breaker t' \<and> (\<exists>new. t_orders t' = t_orders t @ new
    \<and> (\<forall>i. prefix (runner_orders i new @ pending t' i) (pending t i)))"
  using assms by (induction rule: trading_step.induct) (auto simp: pending_def runner_orders_def intro: exI[of _ "[]"])

lemma trading_halts_run:
  assumes "rtranclp (trading_step acc live_run) t t'" "t_breaker t"
  shows "t_breaker t' \<and> (\<exists>new. t_orders t' = t_orders t @ new
    \<and> (\<forall>i. prefix (runner_orders i new @ pending t' i) (pending t i)))"
  using assms
proof (induction rule: rtranclp_induct)
  case (step u v)
  then obtain new1 new2 where n: "t_orders u = t_orders t @ new1" "t_orders v = t_orders u @ new2"
    "\<And>i. prefix (runner_orders i new1 @ pending u i) (pending t i)"
    "\<And>i. prefix (runner_orders i new2 @ pending v i) (pending u i)" "t_breaker v"
    using trading_halts[OF step.hyps(2)] by blast
  have "prefix (runner_orders i (new1 @ new2) @ pending v i) (pending t i)" for i
    using prefix_order.trans[OF _ n(3)[of i], of "runner_orders i new1 @ runner_orders i new2 @ pending v i"] n(4)[of i]
    by simp
  then show ?case using n by (intro conjI exI[of _ "new1 @ new2"]) simp_all
qed (auto simp: runner_orders_def)

section \<open>The program implements it\<close>

definition trading_of :: "system \<Rightarrow> trading" where
  "trading_of s =
     \<lparr>t_breaker = tripped (app_risk s), t_contracts = map active_symbol (app_runners s),
      t_approved = (\<lambda>i. case pcs s i of Submitting ev r req \<Rightarrow> Some req | _ \<Rightarrow> None),
      t_orders = map (\<lambda>p. (pl_runner p, pl_id p, pl_request p)) (placed s)\<rparr>"

lemma trading_of_simps [simp]:
  "t_breaker (trading_of s) = tripped (app_risk s)" "t_contracts (trading_of s) = map active_symbol (app_runners s)"
  "t_orders (trading_of s) = map (\<lambda>p. (pl_runner p, pl_id p, pl_request p)) (placed s)"
  "t_approved (trading_of s) i = (case pcs s i of Submitting ev r req \<Rightarrow> Some req | _ \<Rightarrow> None)"
  by (simp_all add: trading_of_def)

definition is_submitting :: "strategy_pc \<Rightarrow> bool" where
  "is_submitting pc = (case pc of Submitting _ _ _ \<Rightarrow> True | _ \<Rightarrow> False)"

lemma deliver_symbol [simp]: "active_symbol (deliver u rn) = active_symbol rn"
  by (simp add: deliver_def enqueue_def)

lemma notified_symbols [simp]: "map active_symbol (app_runners (foldl (notify sv) s us)) = map active_symbol (app_runners s)"
  by (induction us arbitrary: s) (simp_all add: frame_simps o_def)

lemma same_symbol_update: "i < length rns \<Longrightarrow> active_symbol rn = active_symbol (rns ! i) \<Longrightarrow>
    map active_symbol (rns[i := rn]) = map active_symbol rns"
  by (simp add: map_update list_update_same_conv)

lemma rolled_ticker:
  assumes "runner_ok t rn" "length t = 2" "MdRollover sy \<in> set (contents (queue rn))"
  shows "take 2 (security_code sy) = take 2 (security_code (active_symbol rn))"
  using assms by (fastforce simp: runner_ok_def prefix_def)

lemma runner_tickers:
  assumes "runners_ok rns" "i < length rns"
  shows "runner_ok (tickers ! i) (rns ! i)" and "length (tickers ! i) = 2"
proof -
  have l: "length rns = length tickers" using assms(1) by (simp add: runners_ok_def list_all2_lengthD)
  show "runner_ok (tickers ! i) (rns ! i)" using assms l by (simp add: runners_ok_def list_all2_conv_all_nth)
  have "list_all (\<lambda>t. length t = 2) tickers" by (simp add: tickers_def)
  then show "length (tickers ! i) = 2" using assms(2) l by (simp add: list_all_length)
qed

text \<open>A request that a decision asks for was approved by an untripped breaker.\<close>

lemma approval_checked:
  assumes "unpriced_runner rn" "pop (queue rn) = (Some ev, q)"
    and "sent (decide sv tm acc r (rn\<lparr>queue := q\<rparr>) ev) = req # reqs"
  shows "\<not> tripped r" and "allowed_request acc req" and "ev \<noteq> MdRollover sy"
proof -
  note c = decide_request[OF assms(3)]
  have e: "small_entry ev req"
    using unpriced_decide(2)[OF assms(1,2), of r sv tm acc r] assms(3) by (simp add: pc_after_def unpriced_pc_def)
  then have "approved r req" using c by (auto simp: small_entry_def)
  then show "\<not> tripped r" using gate.pass_means_closed by (auto simp: approved_def)
  show "allowed_request acc req" using c e by (auto simp: small_entry_def allowed_request_def)
  show "ev \<noteq> MdRollover sy" using assms(3) by (auto simp: decide_def)
qed

text \<open>A decision is a rollover, a trip, an approval or nothing.\<close>

lemma decision_simulated:
  fixes sv :: services
  assumes inv: "app_inv acc live_run s" and i: "i < length (app_runners s)" "pcs s i = Polling"
    and ev: "pop (queue (app_runners s ! i)) = (Some ev, q)"
  defines "d \<equiv> decide sv (app_token s) acc (app_risk s) ((app_runners s ! i)\<lparr>queue := q\<rparr>) ev"
  defines "s' \<equiv> set_runner i (the_runner d) s\<lparr>app_risk := the (risk d), pcs := (pcs s)(i := pc_after ev (app_risk s) (sent d))\<rparr>"
  shows "trading_of s' = trading_of s \<or> trading_step acc live_run (trading_of s) (trading_of s')"
proof -
  let ?rn = "app_runners s ! i" and ?t = "trading_of s"
  have ok: "runner_ok (tickers ! i) ?rn" "length (tickers ! i) = 2"
    using inv i(1) runner_tickers by (auto simp: app_inv_def)
  then have q: "queue_ok q" "contents (queue ?rn) = ev # contents q" using pop_rest[OF _ ev] by (auto simp: runner_ok_def)
  have sym: "active_symbol (the_runner d) = rolled (active_symbol ?rn) ev"
    using decide_symbol[of "?rn\<lparr>queue := q\<rparr>"] q(1) by (simp add: d_def)
  obtain r' where r': "risk d = Some r'" "tripped (app_risk s) \<Longrightarrow> r' = app_risk s" "sent d \<noteq> [] \<Longrightarrow> r' = app_risk s"
    "\<And>sy. ev = MdRollover sy \<Longrightarrow> r' = app_risk s"
    unfolding d_def by (metis decide_risk)
  have u: "unpriced_runner ?rn" using inv i(1) by (auto simp: app_inv_def unpriced_def list_all_length)
  have keep: "?t\<lparr>t_breaker := tripped (app_risk s)\<rparr> = ?t" by (simp add: trading_of_def)
  show ?thesis
  proof (cases "sent d")
    case (Cons req reqs)
    note c = approval_checked[OF u ev Cons[unfolded d_def]]
    then have "map active_symbol ((app_runners s)[i := the_runner d]) = map active_symbol (app_runners s)"
      using sym by (intro same_symbol_update[OF i(1)]) (cases ev, auto)
    then have "trading_of s' = ?t\<lparr>t_approved := (t_approved ?t)(i := Some req)\<rparr>"
      using Cons r'(1,3) by (auto simp: s'_def trading_of_def pc_after_def)
    then show ?thesis using approve[of i ?t acc req live_run] i c by simp
  next
    case Nil
    then have b: "trading_of s' = ?t\<lparr>t_breaker := tripped r', t_contracts := (t_contracts ?t)[i := rolled (active_symbol ?rn) ev]\<rparr>"
      using r'(1) sym i(2) by (auto simp: s'_def trading_of_def pc_after_def map_update)
    show ?thesis
    proof (cases "\<exists>sy. ev = MdRollover sy")
      case True
      then obtain sy where sy: "ev = MdRollover sy" by blast
      then have "trading_of s' = ?t\<lparr>t_contracts := (t_contracts ?t)[i := sy]\<rparr>" using b keep r'(4) by simp
      then show ?thesis using roll[of i ?t sy acc live_run] rolled_ticker[OF ok, of sy] q(2) i(1) sy by simp
    next
      case False
      then have "rolled (active_symbol ?rn) ev = t_contracts ?t ! i" using i(1) by (cases ev) auto
      then have "trading_of s' = ?t\<lparr>t_breaker := tripped r'\<rparr>" using b by simp
      then show ?thesis using r'(2) trip[of acc live_run ?t] keep by (cases "tripped r'"; cases "tripped (app_risk s)") auto
    qed
  qed
qed

text \<open>A submitted request is placed under the next id.\<close>

lemma placement_simulated:
  assumes inv: "app_inv acc live_run s" and pc: "pcs s i = Submitting ev r req"
    and lid: "lid = wrap64 (int (length (placed s)) + 1)" and live: "live_run \<Longrightarrow> validate req = None"
    and pc': "\<not> is_submitting pc'"
  shows "trading_step acc live_run (trading_of s) (trading_of (s\<lparr>app_exec := x, pcs := (pcs s)(i := pc'),
      placed := placed s @ [\<lparr>pl_runner = i, pl_event = ev, pl_risk = r, pl_id = lid, pl_request = req\<rparr>]\<rparr>))"
    (is "trading_step _ _ _ (trading_of ?s')")
proof -
  have "unpriced_pc (Submitting ev r req)" using inv pc by (metis app_inv_def unpriced_def)
  then have "live_run \<longrightarrow> req_quantity req = 1"
    using live by (auto simp: unpriced_pc_def small_entry_def validate_def split: if_splits)
  moreover have "trading_of ?s' = (trading_of s)\<lparr>t_approved := (t_approved (trading_of s))(i := None),
      t_orders := t_orders (trading_of s) @ [(i, wrap64 (int (length (t_orders (trading_of s))) + 1), req)]\<rparr>"
    using lid pc' by (auto simp: trading_of_def is_submitting_def split: strategy_pc.splits)
  ultimately show ?thesis using order[of "trading_of s" i req live_run acc] pc by simp
qed

lemma trading_simulated:
  assumes "app_step s s'" "app_inv acc live_run s"
  shows "trading_of s' = trading_of s \<or> trading_step acc live_run (trading_of s) (trading_of s')"
  using assms
proof (induction rule: app_step.induct)
  case (decision i s rn ev q acc' d sv)
  then show ?case using decision_simulated[of acc live_run s i ev q sv] by (simp add: app_inv_def)
next
  case (place s i ev r req c lid po c')
  have "lid = wrap64 (int (length (placed s)) + 1)" "validate req = None"
    using place submit_request_ok[OF place.hyps(3)] by (simp_all add: app_inv_def counter_ok_def)
  then show ?case using placement_simulated[OF place.prems place.hyps(1)] by (simp add: is_submitting_def)
next
  case (dry_run s i ev r req x lid x')
  have "lid = wrap64 (int (length (placed s)) + 1)" "\<not> live_run"
    using dry_run by (auto simp: app_inv_def counter_ok_def dry_submit_def is_live_def Let_def)
  then show ?case using placement_simulated[OF dry_run.prems dry_run.hyps(1)] by (simp add: is_submitting_def)
next
  case (refuse s i ev r req c err c')
  have "trading_of (s\<lparr>app_exec := Live c', pcs := (pcs s)(i := Polling)\<rparr>)
      = (trading_of s)\<lparr>t_approved := (t_approved (trading_of s))(i := None)\<rparr>"
    by (auto simp: trading_of_def)
  then show ?case using withdraw[of "trading_of s" i req] refuse.hyps(1) by simp
next
  case (answer s i req lid c rpc now res us c' sv)
  then show ?case by (auto simp: trading_of_def fun_eq_iff frame_simps)
qed (auto simp: trading_of_def fun_eq_iff frame_simps same_symbol_update check_rollover_def md_callback_def Let_def)

interpretation trading: simulation app_step "app_inv acc live_run" trading_of "trading_step acc live_run" for acc live_run
  by unfold_locales (auto intro: app_inv_step dest: trading_simulated)

lemma boot_trading:
  assumes "main_start sv argv secret = Running a"
  shows "trading_of (boot a)
    = trading_start (map (\<lambda>sc. nearest_contract (sc_ticker sc) (sc_rollover_days sc) (sv_now sv)) make_symbol_configs)"
proof -
  obtain acc where r: "app_runners a = map (make_runner (env_of sv (app_token a) acc)) make_symbol_configs"
    using main_start_running[OF assms] by metis
  have n: "env_now (env_of sv tm acc) = sv_now sv" for tm by (simp add: env_of_def)
  have "\<not> tripped (app_risk a)"
    using assms by (auto simp: main_start_def start_risk_def new_risk_manager_def Let_def split: option.splits sum.splits prod.splits)
  then show ?thesis
    using boot_inv(5,6)[OF assms] by (simp add: trading_of_def trading_start_def)
      (simp add: boot_def app.extend_def r make_runner_fields n o_def)
qed

lemma reachable_trading:
  assumes "reachable sv argv secret s"
  obtains acc where "app_inv acc (''--dry-run'' \<notin> set (tl argv)) s"
    "rtranclp (trading_step acc (''--dry-run'' \<notin> set (tl argv)))
       (trading_start (map (\<lambda>sc. nearest_contract (sc_ticker sc) (sc_rollover_days sc) (sv_now sv)) make_symbol_configs))
       (trading_of s)"
proof -
  obtain a where a: "main_start sv argv secret = Running a" "app_steps (boot a) s" using reachable_steps[OF assms] .
  obtain acc where "app_inv acc (''--dry-run'' \<notin> set (tl argv)) (boot a)" using app_inv_boot[OF a(1)] .
  from trading.steps_simulated[OF a(2) this] show ?thesis using that boot_trading[OF a(1)] by auto
qed

lemma started_ids: "rtranclp (trading_step acc live_run) (trading_start syms) t \<Longrightarrow> ids_in_order t"
proof (induction rule: rtranclp_induct)
  case base
  show ?case by (simp add: ids_in_order_def order_ids_def trading_start_def)
qed (rule trading_ids)

end
