(* ===== verification/Worked_Run.thy ===== *)
theory Worked_Run
  imports App_Run
begin

text \<open>
  A run of the program of \<open>App_Run\<close> in which an order is placed: it shows that the step relation
  reaches what the properties of the running program are about. In a dry run the first runner sees
  an opening bar, a bar that breaks out upwards, a buy trade and a growing bid, and enters. Before
  its order is placed, the second runner may see the same while the account already holds the
  greatest number of positions: its entry is refused, and trips the breaker.
\<close>

section \<open>The strategy\<close>

definition spike_libm :: libm where
  "spike_libm = \<lparr>exp_d = (\<lambda>x. if Fin 0 \<le> x then Fin 1 else Fin 0), pow_d = (\<lambda>b t. Fin 1)\<rparr>"

definition run_services :: services where
  "run_services = demo_services\<lparr>sv_libm := spike_libm, sv_now := 1773619200000000000\<rparr>"

definition run_cfg :: "nat \<Rightarrow> confluence_config" where
  "run_cfg i = strategy_config 1773619200000000000 (make_symbol_configs ! i)"

definition opening_bar :: "nat \<Rightarrow> bar" where
  "opening_bar i = (sample_bar 110 100 105 425)\<lparr>bar_symbol := cs_symbol (run_cfg i)\<rparr>"

definition breakout_bar :: "nat \<Rightarrow> bar" where
  "breakout_bar i = (sample_bar 121 110 120 440)\<lparr>bar_symbol := cs_symbol (run_cfg i)\<rparr>"

definition open_strategy :: "nat \<Rightarrow> confluence_strategy" where
  "open_strategy i = snd (on_bar (snd (on_bar (new_confluence spike_libm (run_cfg i)) (opening_bar i))) (breakout_bar i))"

lemma run_cfg_fields [simp]:
  "cs_session_cfg (run_cfg i) = default_session_config" "cs_ob_cfg (run_cfg i) = default_ob_config"
  "cs_tfi_cfg (run_cfg i) = default_tf_config" "cs_spoof_cfg (run_cfg i) = default_spoof_config"
  by (simp_all add: run_cfg_def strategy_config_def default_confluence_config_def)

lemma open_strategy_fields:
  "(open_strategy i) = (new_confluence spike_libm (run_cfg i))\<lparr>session_ctx := session_ctx (open_strategy i)\<rparr>
   \<and> orb_finalized (session_ctx (open_strategy i)) \<and> sc_bias (session_ctx (open_strategy i)) = BiasLong
   \<and> \<not> nr7_confirmed (session_ctx (open_strategy i))"
proof -
  have m: "wrap32 (utc_minute (to_time_t 25500000000000)) = 425" "wrap32 (utc_minute (to_time_t 26400000000000)) = 440"
    by (simp_all add: utc_minute_def to_time_t_def sdiv_nonneg smod_nonneg signed_take_bit_int_eq_self)
  have d: "double_lowest < Fin 110" "Fin 100 < double_max"
    "\<not> lit (1 / 1000000000) < Fin 0" "rnd (- (10^8)) = Fin (- (10^8))"
    using lit_nano(1) rnd_neg_numeral[of "num.Bit0 _"] double_lowest_sentinel
    by (simp_all add: double_lowest_def double_max_def double_less_asym)
  show ?thesis
    by (simp add: open_strategy_def on_bar_def opening_bar_def breakout_bar_def sample_bar_def detect_timeframe_def
        handle_session_open_def new_confluence_def new_session_context_def default_session_config_def on_intraday_bar_def
        to_utc_minutes_def orb_end_def finalize_orb_def std_max_def std_min_def m d signed_take_bit_int_eq_self Let_def)
qed

definition run_trade :: trade_event where
  "run_trade = trade_at 26500 True 3"

definition run_book :: book_level_event where
  "run_book = \<lparr>ble_level = 0, ble_price = Fin 100, old_bid_size = Fin 0, new_bid_size = Fin 8,
               old_ask_size = Fin 0, new_ask_size = Fin 0, ble_ts = seconds 26501\<rparr>"

lemma spike_weight: "weights (new_order_book_state spike_libm default_ob_config) ! 0 = Fin 1"
proof -
  have "lit (- (1/2)) = Fin (- (1/2))" "lit (- (3/2)) = Fin (- (3/2))"
    using rnd_half_int[of "- 1"] rnd_half_int[of "- 3"] by simp_all
  then show ?thesis
    by (simp add: new_order_book_state_def precompute_weights_def spike_libm_def default_ob_config_def accumulate_def
        double_of_int_def Let_def upt_rec)
qed

lemma run_trade_quiet:
  "fst (on_trade_event (open_strategy i) run_trade) = None"
  "snd (on_trade_event (open_strategy i) run_trade) = (open_strategy i)\<lparr>current_mid := Fin 100,
     tfi_analyzer := snd (on_trade (new_trade_flow default_tf_config) run_trade)\<rparr>"
proof -
  note o = open_strategy_fields
  have v: "ob_vote (new_order_book_state spike_libm default_ob_config) = VNeutral"
    by (simp add: ob_vote_def new_order_book_state_def default_ob_config_def)
  have t: "tfi_analyzer (open_strategy i) = new_trade_flow default_tf_config"
    "ob_state (open_strategy i) = new_order_book_state spike_libm default_ob_config"
    by (subst o[THEN conjunct1], simp add: new_confluence_def)+
  show f: "fst (on_trade_event (open_strategy i) run_trade) = None"
    by (simp add: on_trade_event_def try_enter_def t v is_strong_def Let_def run_trade_def trade_at_def)
       (simp add: vote_int_def split: vote.split)
  show "snd (on_trade_event (open_strategy i) run_trade) = (open_strategy i)\<lparr>current_mid := Fin 100,
     tfi_analyzer := snd (on_trade (new_trade_flow default_tf_config) run_trade)\<rparr>"
    using f by (simp add: on_trade_event_def try_enter_state t Let_def) (simp add: run_trade_def trade_at_def)
qed

lemma run_book_enters:
  "fst (on_book_event spike_libm (snd (on_trade_event (open_strategy i) run_trade)) run_book)
     = Some (entry_order (run_cfg i) False True)"
proof -
  let ?t = "snd (on_trade (new_trade_flow default_tf_config) run_trade)"
  let ?s = "snd (on_trade_event (open_strategy i) run_trade)"
  note o = open_strategy_fields
  have tv: "tf_vote ?t = VLong"
    by (rule one_buy_votes_long[of _ 26500]) (simp_all add: run_trade_def trade_flow_defs new_trade_flow_def Let_def)
  have f: "cs_cfg (open_strategy i) = (run_cfg i)" "spoof (open_strategy i) = new_spoof_filter default_spoof_config"
    "ob_state (open_strategy i) = new_order_book_state spike_libm default_ob_config" "position (open_strategy i) = 0"
    "last_signal_ts (open_strategy i) = 0"
    by (subst o[THEN conjunct1], simp add: new_confluence_def)+
  have ts: "ble_ts run_book = 26501000000000" by (simp add: run_book_def)
  have sp: "update_spoof_on_book ?s run_book = ?s"
    by (simp add: update_spoof_on_book_def run_trade_quiet(2) f run_book_def default_spoof_config_def Let_def)
  have ob: "ob_vote (snd (ob_on_book_event spike_libm (new_order_book_state spike_libm default_ob_config) run_book)) = VLong"
    using spike_weight
    by (simp add: ob_on_book_event_def run_book_def apply_time_decay_def new_order_book_state_def ob_vote_def
        default_ob_config_def Let_def)
  have "fst (on_book_event spike_libm ?s run_book) = Some (entry_order (run_cfg i) False True) \<longleftrightarrow>
      fst (try_enter (?s\<lparr>ob_state := snd (ob_on_book_event spike_libm (ob_state ?s) run_book)\<rparr>) (ble_ts run_book))
        = Some (entry_order (run_cfg i) False True)" by (simp add: on_book_event_def sp Let_def)
  also have "\<dots>" using o unfolding try_enter_fst
    by (simp add: run_trade_quiet(2) f) (auto simp: ts entry_condition_def try_enter_state tv ob f is_spoofed_def
        new_spoof_filter_def intro!: exI[of _ True])
  finally show ?thesis by simp
qed

section \<open>Decisions\<close>

lemma run_check:
  assumes "req_symbol req = cs_symbol (run_cfg 0)"
  shows "check (sv_margin run_services) (sv_now run_services) (start_risk (new_risk_manager main_risk_config) (Inl ''down'') 1773619200000000000) req = Inr ()"
proof -
  have sy: "cs_symbol (run_cfg 0) = nearest_contract ''Si'' 5 1773619200000000000"
    by (simp add: run_cfg_def strategy_config_def default_confluence_config_def make_symbol_configs_def)
  have "CHR ''-'' \<notin> set (security_code (cs_symbol (run_cfg 0)))"
    unfolding sy by (rule nearest_contract_chars) (simp_all add: contract_month_example)
  then have "check_expiry r (req_symbol req) now = Inr ()" for r now
    using assms by (intro check_expiry_without_dash) simp
  then show ?thesis
    by (simp add: check_def check_circuit_breaker_def check_daily_loss_def check_drawdown_def check_position_count_def
        check_margin_def fetch_initial_margin_def run_services_def demo_services_def start_risk_def refresh_account_def
        new_risk_manager_def empty_account_def main_risk_config_def double_of_int_def Let_def)
qed

text \<open>An account that already holds five positions, and nothing else.\<close>

definition full_account :: account_response where
  "full_account = \<lparr>resp_equity = [], resp_money_reserved = [], resp_available_cash = [],
     resp_unrealized_profit = [], resp_positions_size = 5\<rparr>"

definition full_risk :: risk_manager where
  "full_risk = snd (refresh_account (start_risk (new_risk_manager main_risk_config) (Inl ''down'') 1773619200000000000)
     (Inr full_account) 0)"

lemma full_check: "check rpc now full_risk req = Inl (mk_error RiskLimitExceeded ''max positions reached'')"
proof -
  have z: "decimal_to_double [] = Fin 0" by code_simp
  show ?thesis
    by (simp add: check_def check_circuit_breaker_def check_daily_loss_def check_drawdown_def check_position_count_def
        full_risk_def full_account_def z start_risk_def refresh_account_def
        new_risk_manager_def empty_account_def main_risk_config_def double_of_int_def Let_def)
qed

lemma trade_decision:
  "rn_strategy rn = open_strategy i \<Longrightarrow>
   decide run_services tm acc r rn (MdTrade run_trade)
     = \<lparr>the_runner = rn\<lparr>rn_strategy := snd (on_trade_event (open_strategy i) run_trade)\<rparr>, risk = Some r, executor = (), sent = []\<rparr>"
  using run_trade_quiet(1)[of i] by (simp add: decide_def case_prod_beta)

lemma book_decision:
  fixes acc :: string
  assumes "rn_strategy rn = snd (on_trade_event (open_strategy i) run_trade)"
  defines "req \<equiv> request_of acc (entry_order (run_cfg i) False True)"
  shows "check (sv_margin run_services) (sv_now run_services) r req = Inr () \<Longrightarrow>
      sent (decide run_services tm acc r rn (MdBook run_book)) = [req] \<and> risk (decide run_services tm acc r rn (MdBook run_book)) = Some r"
    and "check (sv_margin run_services) (sv_now run_services) r req = Inl (mk_error RiskLimitExceeded msg) \<Longrightarrow>
      sent (decide run_services tm acc r rn (MdBook run_book)) = []
      \<and> risk (decide run_services tm acc r rn (MdBook run_book)) = Some (trip_circuit_breaker r msg)"
proof -
  let ?E = "decide_env run_services tm acc" and ?g = "entry_order (run_cfg i) False True"
  have l: "env_libm ?E = spike_libm" and e: "env_margin ?E = sv_margin run_services" "env_now ?E = sv_now run_services"
    "env_account ?E = acc" by (simp_all add: decide_env_def run_services_def)
  have g: "sig_direction ?g = DirBuy" by (simp add: entry_order_def)
  have d: "decide run_services tm acc r rn (MdBook run_book) = handle_signal ?E
      (set_strategy \<lparr>the_runner = rn, risk = Some r, executor = (), sent = []\<rparr>
        (snd (on_book_event spike_libm (rn_strategy rn) run_book))) ?g"
    using run_book_enters[of i] by (simp add: decide_def l assms(1) case_prod_beta)
  show "check (sv_margin run_services) (sv_now run_services) r req = Inr () \<Longrightarrow>
      sent (decide run_services tm acc r rn (MdBook run_book)) = [req] \<and> risk (decide run_services tm acc r rn (MdBook run_book)) = Some r"
    unfolding d handle_signal_def by (simp add: g e req_def silent_submit(1)[OF decide_silent] Let_def)
  show "check (sv_margin run_services) (sv_now run_services) r req = Inl (mk_error RiskLimitExceeded msg) \<Longrightarrow>
      sent (decide run_services tm acc r rn (MdBook run_book)) = []
      \<and> risk (decide run_services tm acc r rn (MdBook run_book)) = Some (trip_circuit_breaker r msg)"
    unfolding d handle_signal_def by (simp add: g e req_def Let_def)
qed

section \<open>The program\<close>

lemma handle_market_event:
  assumes "reachable sv argv secret s" "i < length (app_runners s)" "pcs s i = Polling"
    and "contents (queue (app_runners s ! i)) = []" "from_market ev" "primary_account_id (app_token s) = Some acc"
  obtains q d where "queue_ok q" "contents q = []"
    "d = decide sv' (app_token s) acc (app_risk s) ((app_runners s ! i)\<lparr>queue := q\<rparr>) ev"
    "reachable sv argv secret (set_runner i (the_runner d) s\<lparr>app_risk := the (risk d),
       pcs := (pcs s)(i := pc_after ev (app_risk s) (sent d))\<rparr>)"
proof -
  let ?rn = "app_runners s ! i" and ?s = "set_runner i (md_callback (app_runners s ! i) ev) s"
  have "runners_ok (app_runners s)" using reachable_inv[OF assms(1)] by (auto simp: app_inv_def)
  then have ok: "queue_ok (queue ?rn)"
    using assms(2) by (auto simp: runners_ok_def list_all2_conv_all_nth runner_ok_def)
  have r: "reachable sv argv secret ?s"
    by (rule reachable.stepped[OF assms(1) market_data[OF assms(2,5)]])
  have q: "queue_ok (snd (push (queue ?rn) ev))" "contents (snd (push (queue ?rn) ev)) = [ev]"
    using push_cases[OF ok, of ev] assms(4) by simp_all
  then obtain q' where q': "pop (snd (push (queue ?rn) ev)) = (Some ev, q')" "contents q' = []" "queue_ok q'"
    by (cases rule: pop_cases) auto
  define d where "d = decide sv' (app_token s) acc (app_risk s) (?rn\<lparr>queue := q'\<rparr>) ev"
  have "app_step ?s (set_runner i (the_runner d) ?s\<lparr>app_risk := the (risk d),
      pcs := (pcs ?s)(i := pc_after ev (app_risk ?s) (sent d))\<rparr>)"
    by (rule decision[where rn = "md_callback ?rn ev" and q = q' and acc = acc and sv = sv'])
      (use assms q' in \<open>simp_all add: md_callback_def d_def\<close>)
  from reachable.stepped[OF r this] show thesis
    by (intro that[OF q'(3,2) d_def]) simp
qed

lemma example_start:
  obtains a where "main_start run_services [''bot'', ''--dry-run''] (Some ''key'') = Running a"
    "app_risk a = start_risk (new_risk_manager main_risk_config) (Inl ''down'') 1773619200000000000"
    "app_exec a = DryRun \<lparr>dry_id = 0\<rparr>" "length (app_runners a) = 5"
    "primary_account_id (app_token a) = Some ''A1''"
    "\<And>i. i < 5 \<Longrightarrow> rn_strategy (app_runners a ! i) = new_confluence spike_libm (run_cfg i)"
    "\<And>i. i < 5 \<Longrightarrow> contents (queue (app_runners a ! i)) = []"
proof -
  let ?tm = "\<lparr>tm_cfg = default_token_config, tm_channel = Some (make_channel default_token_config), tm_jwt = ''t0'',
     account_ids = [''A1''], tm_stop = False, renewal_thread = Some ''key''\<rparr>"
  have i: "init (sv_auth run_services) (new_token_manager default_token_config) ''key'' = (Some (Inr ()), ?tm)"
    by (simp add: run_services_def demo_services_def init_ok_iff demo_auth_def)
  let ?E = "env_of run_services ?tm ''A1''"
  let ?a = "\<lparr>app_token = ?tm, app_risk = start_risk (new_risk_manager main_risk_config) (sv_account run_services) (sv_now run_services),
     app_exec = make_executor True ''A1'', app_runners = map (make_runner ?E) make_symbol_configs\<rparr>"
  have "main_start run_services [''bot'', ''--dry-run''] (Some ''key'') = Running ?a"
    by (simp add: main_start_def parse_args_flags i primary_account_id_def)
  moreover have n: "sv_now run_services = 1773619200000000000" "sv_account run_services = Inl ''down''"
    by (simp_all add: run_services_def demo_services_def)
  moreover have "rn_strategy (make_runner ?E (make_symbol_configs ! i)) = new_confluence spike_libm (run_cfg i)" for i
    by (simp add: make_runner_def new_runner_def load_history_def start_subscriptions_def env_of_def get_bars_def
        run_services_def demo_services_def run_cfg_def Let_def)
  moreover have l: "length make_symbol_configs = 5" by (simp add: make_symbol_configs_def)
  moreover have "contents (queue (make_runner ?E (make_symbol_configs ! i))) = []" for i
    by (simp add: make_runner_fields)
  ultimately show thesis
    by (intro that[of ?a]) (simp_all add: make_executor_def primary_account_id_def)
qed

abbreviation run_reach :: "system \<Rightarrow> bool" where
  "run_reach \<equiv> reachable run_services [''bot'', ''--dry-run''] (Some ''key'')"

text \<open>A fresh runner sees the two bars, the trade and the change of the book.\<close>

lemma entry_run:
  assumes s: "run_reach s" "i < length (app_runners s)" "pcs s i = Polling" "primary_account_id (app_token s) = Some ''A1''"
    and rn: "contents (queue (app_runners s ! i)) = []" "rn_strategy (app_runners s ! i) = new_confluence spike_libm (run_cfg i)"
  obtains rn d where "rn_strategy rn = snd (on_trade_event (open_strategy i) run_trade)"
    "d = decide run_services (app_token s) ''A1'' (app_risk s) rn (MdBook run_book)"
    "run_reach (set_runner i (the_runner d) s\<lparr>app_risk := the (risk d),
       pcs := (pcs s)(i := pc_after (MdBook run_book) (app_risk s) (sent d))\<rparr>)"
proof -
  define rn where "rn = app_runners s ! i"
  have "run_reach (set_runner i (rn\<lparr>rn_strategy := snd (on_bar (rn_strategy rn) (opening_bar i))\<rparr>) s)"
    by (rule reachable.stepped[OF s(1) bar]) (use s rn_def in simp_all)
  from reachable.stepped[OF this bar[of i _ _ "breakout_bar i", OF _ refl]]
  have r2: "run_reach (set_runner i (rn\<lparr>rn_strategy := open_strategy i\<rparr>) s)"
    using s(2) rn(2) by (simp add: open_strategy_def rn_def)
  let ?s2 = "set_runner i (rn\<lparr>rn_strategy := open_strategy i\<rparr>) s"
  obtain q d where d: "d = decide run_services (app_token ?s2) ''A1'' (app_risk ?s2) ((app_runners ?s2 ! i)\<lparr>queue := q\<rparr>) (MdTrade run_trade)"
    "contents q = []" "run_reach (set_runner i (the_runner d) ?s2\<lparr>app_risk := the (risk d),
       pcs := (pcs ?s2)(i := pc_after (MdTrade run_trade) (app_risk ?s2) (sent d))\<rparr>)"
    by (rule handle_market_event[OF r2, of i "MdTrade run_trade" "''A1''" run_services])
      (use s rn in \<open>simp_all add: rn_def\<close>)
  have d': "d = \<lparr>the_runner = rn\<lparr>rn_strategy := snd (on_trade_event (open_strategy i) run_trade), queue := q\<rparr>,
      risk = Some (app_risk s), executor = (), sent = []\<rparr>"
    unfolding d(1) using s(2) trade_decision[of "rn\<lparr>rn_strategy := open_strategy i, queue := q\<rparr>" i] by simp
  define s3 where "s3 = set_runner i (the_runner d) s"
  have r3: "run_reach s3" using d(3) d' s(3) by (simp add: pc_after_def fun_upd_idem s3_def)
  obtain q' e where e: "e = decide run_services (app_token s3) ''A1'' (app_risk s3) ((app_runners s3 ! i)\<lparr>queue := q'\<rparr>) (MdBook run_book)"
    "run_reach (set_runner i (the_runner e) s3\<lparr>app_risk := the (risk e),
       pcs := (pcs s3)(i := pc_after (MdBook run_book) (app_risk s3) (sent e))\<rparr>)"
    by (rule handle_market_event[OF r3, of i "MdBook run_book" "''A1''" run_services])
      (use d(2) d' s in \<open>simp_all add: s3_def\<close>)
  show thesis
    by (rule that[of "(app_runners s3 ! i)\<lparr>queue := q'\<rparr>" e]) (use e d' s in \<open>simp_all add: s3_def\<close>)
qed

text \<open>The first runner has got its entry through the check and is about to submit it.\<close>

lemma example_pending:
  obtains s where "run_reach s" "pcs s 0 = Submitting (MdBook run_book) (app_risk s) (request_of ''A1'' (entry_order (run_cfg 0) False True))"
    "app_exec s = DryRun \<lparr>dry_id = 0\<rparr>" "placed s = []" "pcs s 1 = Polling" "1 < length (app_runners s)"
    "primary_account_id (app_token s) = Some ''A1''" "contents (queue (app_runners s ! 1)) = []"
    "rn_strategy (app_runners s ! 1) = new_confluence spike_libm (run_cfg 1)"
    "app_risk s = start_risk (new_risk_manager main_risk_config) (Inl ''down'') 1773619200000000000"
proof -
  let ?r = "start_risk (new_risk_manager main_risk_config) (Inl ''down'') 1773619200000000000"
  let ?req = "request_of ''A1'' (entry_order (run_cfg 0) False True)"
  obtain a where a: "main_start run_services [''bot'', ''--dry-run''] (Some ''key'') = Running a" "app_risk a = ?r"
    "app_exec a = DryRun \<lparr>dry_id = 0\<rparr>" "length (app_runners a) = 5" "primary_account_id (app_token a) = Some ''A1''"
    "\<And>i. i < 5 \<Longrightarrow> rn_strategy (app_runners a ! i) = new_confluence spike_libm (run_cfg i)"
    "\<And>i. i < 5 \<Longrightarrow> contents (queue (app_runners a ! i)) = []"
    using example_start by blast
  define s0 where "s0 = boot a"
  have f0: "app_runners s0 = app_runners a" "app_risk s0 = ?r" "app_exec s0 = DryRun \<lparr>dry_id = 0\<rparr>"
    "app_token s0 = app_token a" "pcs s0 = (\<lambda>_. Polling)" "placed s0 = []" "run_reach s0"
    using a(2,3) reachable.started[OF a(1)] by (simp_all add: s0_def boot_def app.extend_def)
  obtain rn d where d: "rn_strategy rn = snd (on_trade_event (open_strategy 0) run_trade)"
    "d = decide run_services (app_token s0) ''A1'' (app_risk s0) rn (MdBook run_book)"
    "run_reach (set_runner 0 (the_runner d) s0\<lparr>app_risk := the (risk d),
       pcs := (pcs s0)(0 := pc_after (MdBook run_book) (app_risk s0) (sent d))\<rparr>)"
    by (rule entry_run[OF f0(7), of 0]) (use a f0 in simp_all)
  have "sent d = [?req] \<and> risk d = Some ?r"
    unfolding d(2) f0(2) by (rule book_decision(1)[OF d(1) run_check]) (simp add: request_of_def entry_order_def)
  then show thesis using that[OF d(3)] a f0 by (simp add: pc_after_def)
qed

lemma dry_first_id: "dry_submit \<lparr>dry_id = 0\<rparr> req = (Inr 1, \<lparr>dry_id = 1\<rparr>)"
  by (simp add: dry_submit_def Let_def wrap64_id)

lemma example_run:
  obtains s p where "run_reach s" "placed s = [p]"
    "pl_event p = MdBook run_book" "pl_id p = 1" "pl_request p = request_of ''A1'' (entry_order (run_cfg 0) False True)"
proof -
  obtain s where s: "run_reach s" "pcs s 0 = Submitting (MdBook run_book) (app_risk s) (request_of ''A1'' (entry_order (run_cfg 0) False True))"
    "app_exec s = DryRun \<lparr>dry_id = 0\<rparr>" "placed s = []" by (rule example_pending)
  from reachable.stepped[OF s(1) dry_run[OF s(2,3) dry_first_id]] show thesis
    by (rule that) (simp add: s(4), simp_all)
qed

text \<open>Before it does, the account is found full, and the entry of the second runner trips the breaker.\<close>

lemma example_trip:
  obtains s r p s' where "run_reach s" "tripped (app_risk s)" "app_step s s'"
    "pcs s 0 = Submitting (MdBook run_book) r (pl_request p)" "placed s = []" "placed s' = [p]" "pl_runner p = 0"
proof -
  let ?req = "request_of ''A1'' (entry_order (run_cfg 0) False True)"
  obtain s1 where s1: "run_reach s1" "pcs s1 0 = Submitting (MdBook run_book) (app_risk s1) ?req"
    "app_exec s1 = DryRun \<lparr>dry_id = 0\<rparr>" "placed s1 = []" "pcs s1 1 = Polling" "1 < length (app_runners s1)"
    "primary_account_id (app_token s1) = Some ''A1''" "contents (queue (app_runners s1 ! 1)) = []"
    "rn_strategy (app_runners s1 ! 1) = new_confluence spike_libm (run_cfg 1)"
    "app_risk s1 = start_risk (new_risk_manager main_risk_config) (Inl ''down'') 1773619200000000000"
    by (rule example_pending)
  define s2 where "s2 = s1\<lparr>app_risk := snd (refresh_account (app_risk s1) (Inr full_account) 0)\<rparr>"
  have s2: "run_reach s2" "app_risk s2 = full_risk"
    using reachable.stepped[OF s1(1) poll_account] by (simp_all add: s2_def full_risk_def s1(10))
  obtain rn d where d: "rn_strategy rn = snd (on_trade_event (open_strategy 1) run_trade)"
    "d = decide run_services (app_token s2) ''A1'' (app_risk s2) rn (MdBook run_book)"
    "run_reach (set_runner 1 (the_runner d) s2\<lparr>app_risk := the (risk d),
       pcs := (pcs s2)(1 := pc_after (MdBook run_book) (app_risk s2) (sent d))\<rparr>)"
    by (rule entry_run[OF s2(1), of 1]) (use s1 in \<open>simp_all add: s2_def\<close>)
  have r: "risk d = Some (trip_circuit_breaker full_risk ''max positions reached'')"
    using book_decision(2)[OF d(1) full_check] unfolding d(2) s2(2) by blast
  let ?s3 = "set_runner 1 (the_runner d) s2\<lparr>app_risk := the (risk d),
       pcs := (pcs s2)(1 := pc_after (MdBook run_book) (app_risk s2) (sent d))\<rparr>"
  have "tripped (app_risk ?s3)" using r by (simp add: trip_circuit_breaker_def)
  moreover have p: "pcs ?s3 0 = Submitting (MdBook run_book) (app_risk s1) ?req" "app_exec ?s3 = DryRun \<lparr>dry_id = 0\<rparr>"
    "placed ?s3 = []" using s1 by (simp_all add: s2_def)
  moreover note dry_run[OF p(1,2) dry_first_id]
  ultimately show thesis
    by (intro that[OF d(3), where p = "\<lparr>pl_runner = 0, pl_event = MdBook run_book, pl_risk = app_risk s1, pl_id = 1, pl_request = ?req\<rparr>"])
      (assumption | simp)+
qed

end
