(* ===== verification/Connectivity_Check.thy ===== *)
theory Connectivity_Check
  imports Token_Manager
begin

text \<open>
  \<open>src/connectivity_check/main.cpp\<close>: the diagnostic program that logs in, reads the account and asks
  for the instruments under several spellings of their names. The broker's \<open>GetAccount\<close> and
  \<open>GetAsset\<close> are parameters that answer with an error message or not; they see the token and the
  account. What the program logs is left out; its result is the exit code, \<open>None\<close> when an
  exception ends it.
\<close>

section \<open>The program\<close>

definition check_account :: "(string \<times> string \<Rightarrow> string \<Rightarrow> string + unit) \<Rightarrow> token_manager \<Rightarrow> unit result option" where
  "check_account get_account mgr =
     (case primary_account_id mgr of
        None \<Rightarrow> None
      | Some acc \<Rightarrow>
          (case get_account (''authorization'', ''Bearer '' @ tm_jwt mgr) acc of
             Inl msg \<Rightarrow> Some (Inl (mk_error RpcError msg))
           | Inr _ \<Rightarrow> Some (Inr ())))"

definition candidates :: "string list" where
  "candidates =
     [''SiM6@RTSX'', ''SIM6@RTSX'', ''SiM26@RTSX'', ''SIM26@RTSX'', ''Si-6.26@RTSX'', ''SiM6@RUSX'', ''SIM6@RUSX'',
      ''RIM6@RTSX'', ''RITM6@RTSX'', ''RiM6@RTSX'', ''GDM6@RTSX'', ''GOLDM6@RTSX'', ''MXM6@RTSX'', ''BRM6@RTSX'',
      ''SiM6@MISX'']"

text \<open>The loop over the candidates: whether any of them is known.\<close>

fun probe :: "(string \<Rightarrow> string + unit) \<Rightarrow> bool \<Rightarrow> string list \<Rightarrow> bool" where
  "probe get_asset any_ok [] = any_ok"
| "probe get_asset any_ok (sy # sys) =
     probe get_asset (case get_asset sy of Inr _ \<Rightarrow> True | Inl _ \<Rightarrow> any_ok) sys"

definition check_main ::
  "auth_service \<Rightarrow> (string \<times> string \<Rightarrow> string \<Rightarrow> string + unit)
     \<Rightarrow> (string \<times> string \<Rightarrow> string \<Rightarrow> string \<Rightarrow> string + unit) \<Rightarrow> string option \<Rightarrow> int option" where
  "check_main svc get_account get_asset secret_env =
     (case secret_env of
        None \<Rightarrow> Some 1
      | Some secret \<Rightarrow>
          (case init svc (new_token_manager default_token_config) secret of
             (None, mgr) \<Rightarrow> None
           | (Some (Inl err), mgr) \<Rightarrow> Some 1
           | (Some (Inr _), mgr) \<Rightarrow>
               (case check_account get_account mgr of
                  None \<Rightarrow> None
                | Some (Inl err) \<Rightarrow> Some 1
                | Some (Inr _) \<Rightarrow>
                    (case primary_account_id mgr of
                       None \<Rightarrow> None
                     | Some acc \<Rightarrow>
                         Some (if probe (\<lambda>sy. get_asset (''authorization'', ''Bearer '' @ tm_jwt mgr) sy acc) False candidates
                               then 0 else 1)))))"

section \<open>The exit code\<close>

lemma probe_iff: "probe f b sys \<longleftrightarrow> b \<or> (\<exists>sy \<in> set sys. f sy = Inr ())"
  by (induction sys arbitrary: b) (auto split: sum.split)

text \<open>
  The program never dies from an exception, and exits with 0 exactly when the login succeeds, the
  account can be read and the broker knows one of the candidates.
\<close>

lemma check_main_exit:
  "check_main svc get_account get_asset secret_env =
     Some (if \<exists>secret mgr acc sy. secret_env = Some secret
               \<and> init svc (new_token_manager default_token_config) secret = (Some (Inr ()), mgr)
               \<and> primary_account_id mgr = Some acc
               \<and> get_account (''authorization'', ''Bearer '' @ tm_jwt mgr) acc = Inr ()
               \<and> sy \<in> set candidates \<and> get_asset (''authorization'', ''Bearer '' @ tm_jwt mgr) sy acc = Inr ()
           then 0 else 1)"
proof (cases secret_env)
  case None
  then show ?thesis by (simp add: check_main_def)
next
  case (Some secret)
  obtain r mgr where i: "init svc (new_token_manager default_token_config) secret = (r, mgr)" by fastforce
  have nt: "r \<noteq> None" using first_init_returns[of svc default_token_config secret] i by simp
  show ?thesis
  proof (cases "r = Some (Inr ())")
    case True
    then obtain acc where acc: "primary_account_id mgr = Some acc" using init_ok_account i by blast
    show ?thesis using Some i True acc
      by (cases "get_account (''authorization'', ''Bearer '' @ tm_jwt mgr) acc")
        (auto simp: check_main_def check_account_def probe_iff)
  next
    case False
    then obtain e where "r = Some (Inl e)" using nt by (cases r) (auto, metis sum.exhaust unit.exhaust)
    then show ?thesis using Some i by (simp add: check_main_def)
  qed
qed

end
