(* ===== verification/Backtest.thy ===== *)
theory Backtest
  imports Confluence Cxx_Text
begin

text \<open>
  \<open>tests/backtest/backtest_runner.hpp\<close> and \<open>backtest_runner.cpp\<close>: the replay of daily bars through
  the strategy, with stop loss and take profit decided on each bar's high and low. The file is the
  list of its lines, \<open>None\<close> when it cannot be opened; printing and the file of trades are left out.
  Counters are integers: a file has fewer than \<open>2 ^ 31\<close> bars.

  Shown: the accounting of the trades adds up, the stop loss comes first, and no backtest ever
  opens a trade, because \<open>on_bar\<close> never returns a signal.
\<close>

section \<open>Data\<close>

datatype exit_kind = TakeProfit | StopLoss | ForceClose

record trade =
  tr_entry_date :: string
  tr_exit_date :: string
  tr_entry_price :: double
  tr_exit_price :: double
  tr_direction :: int
  tr_pnl_ticks :: double
  tr_reason :: exit_kind

record backtest_result =
  bt_total_bars :: int
  bt_total_trades :: int
  bt_wins :: int
  bt_losses :: int
  bt_win_rate :: double
  bt_total_pnl_ticks :: double
  bt_max_win :: double
  bt_max_loss :: double
  bt_max_drawdown :: double
  bt_profit_factor :: double
  bt_trades :: "trade list"

definition empty_result :: backtest_result where
  "empty_result = \<lparr>bt_total_bars = 0, bt_total_trades = 0, bt_wins = 0, bt_losses = 0, bt_win_rate = lit 0,
     bt_total_pnl_ticks = lit 0, bt_max_win = lit 0, bt_max_loss = lit 0, bt_max_drawdown = lit 0,
     bt_profit_factor = lit 0, bt_trades = []\<rparr>"

record bt_config =
  bt_sl_ticks :: double
  bt_tp_ticks :: double
  bt_tick_size :: double
  bt_slippage :: double
  bt_commission :: double

record backtest_runner =
  bt_cfg :: bt_config
  bt_position :: int
  bt_entry_price :: double
  bt_entry_date :: string
  bt_equity_peak :: double

definition new_backtest_runner :: "bt_config \<Rightarrow> backtest_runner" where
  "new_backtest_runner cfg = \<lparr>bt_cfg = cfg, bt_position = 0, bt_entry_price = lit 0, bt_entry_date = [], bt_equity_peak = lit 0\<rparr>"

section \<open>Reading the file\<close>

text \<open>\<open>std::getline(ss, field, ',')\<close>: it fails at the end of the line.\<close>

definition getline_field :: "string \<Rightarrow> (string \<times> string) option" where
  "getline_field s =
     (if s = [] then None
      else Some (takeWhile (\<lambda>c. c \<noteq> CHR '','') s, drop 1 (dropWhile (\<lambda>c. c \<noteq> CHR '','') s)))"

fun getline_fields :: "nat \<Rightarrow> string \<Rightarrow> string list option" where
  "getline_fields 0 s = Some []"
| "getline_fields (Suc n) s =
     (case getline_field s of
        None \<Rightarrow> None
      | Some (f, rest) \<Rightarrow> map_option (Cons f) (getline_fields n rest))"

text \<open>The bar of a line, \<open>None\<close> when a field is missing or a number cannot be read.\<close>

definition bar_of_line :: "string \<Rightarrow> bar option" where
  "bar_of_line line =
     (case getline_fields 6 line of
        None \<Rightarrow> None
      | Some fs \<Rightarrow>
          (case (stod (fs ! 1), stod (fs ! 2), stod (fs ! 3), stod (fs ! 4), stol (fs ! 5)) of
             (Some op, Some hi, Some lo, Some cl, Some vol) \<Rightarrow>
               Some \<lparr>bar_symbol = empty_symbol, timeframe = ''D1'', bar_open = op, bar_high = hi, bar_low = lo,
                     bar_close = cl, bar_volume = vol, bar_ts = 0, bar_date = fs ! 0\<rparr>
           | _ \<Rightarrow> None))"

definition load_csv :: "string list option \<Rightarrow> bar list" where
  "load_csv file =
     (case file of
        None \<Rightarrow> []
      | Some lines \<Rightarrow> List.map_filter (\<lambda>line. if line = [] then None else bar_of_line line) (tl lines))"

section \<open>Trades\<close>

definition bt_open_position ::
  "bar \<Rightarrow> direction \<Rightarrow> backtest_runner \<times> backtest_result \<Rightarrow> backtest_runner \<times> backtest_result" where
  "bt_open_position b dir st =
     (case st of (r, res) \<Rightarrow>
        (let slip = bt_slippage (bt_cfg r) * bt_tick_size (bt_cfg r)
         in (r\<lparr>bt_entry_price := bar_close b + (if dir = DirBuy then slip else - slip),
               bt_position := (if dir = DirBuy then 1 else - 1), bt_entry_date := bar_date b\<rparr>,
             res\<lparr>bt_total_trades := bt_total_trades res + 1\<rparr>)))"

definition bt_close_position ::
  "double \<Rightarrow> bar \<Rightarrow> exit_kind \<Rightarrow> backtest_runner \<times> backtest_result \<Rightarrow> backtest_runner \<times> backtest_result" where
  "bt_close_position price b reason st =
     (case st of (r, res) \<Rightarrow>
        (let slip = bt_slippage (bt_cfg r) * bt_tick_size (bt_cfg r);
             ep = price + (if 0 < bt_position r then - slip else slip);
             pnl = (ep - bt_entry_price r) / bt_tick_size (bt_cfg r) * double_of_int (bt_position r)
                   - bt_commission (bt_cfg r);
             total = bt_total_pnl_ticks res + pnl;
             peak = std_max (bt_equity_peak r) total;
             t = \<lparr>tr_entry_date = bt_entry_date r, tr_exit_date = bar_date b, tr_entry_price = bt_entry_price r,
                  tr_exit_price = ep, tr_direction = bt_position r, tr_pnl_ticks = pnl, tr_reason = reason\<rparr>
         in (r\<lparr>bt_equity_peak := peak, bt_position := 0, bt_entry_price := lit 0\<rparr>,
             res\<lparr>bt_total_pnl_ticks := total,
                 bt_wins := (if lit 0 < pnl then bt_wins res + 1 else bt_wins res),
                 bt_losses := (if lit 0 < pnl then bt_losses res else bt_losses res + 1),
                 bt_max_win := std_max (bt_max_win res) pnl, bt_max_loss := std_min (bt_max_loss res) pnl,
                 bt_max_drawdown := std_max (bt_max_drawdown res) (peak - total),
                 bt_trades := bt_trades res @ [t]\<rparr>)))"

definition bt_check_exit :: "bar \<Rightarrow> backtest_runner \<times> backtest_result \<Rightarrow> backtest_runner \<times> backtest_result" where
  "bt_check_exit b st =
     (let r = fst st; long = (0 < bt_position r);
          sl_dist = bt_sl_ticks (bt_cfg r) * bt_tick_size (bt_cfg r);
          tp_dist = bt_tp_ticks (bt_cfg r) * bt_tick_size (bt_cfg r);
          sl = (if long then bt_entry_price r - sl_dist else bt_entry_price r + sl_dist);
          tp = (if long then bt_entry_price r + tp_dist else bt_entry_price r - tp_dist)
      in if long \<and> bar_low b \<le> sl then bt_close_position sl b StopLoss st
         else if long \<and> tp \<le> bar_high b then bt_close_position tp b TakeProfit st
         else if bt_position r < 0 \<and> sl \<le> bar_high b then bt_close_position sl b StopLoss st
         else if bt_position r < 0 \<and> bar_low b \<le> tp then bt_close_position tp b TakeProfit st
         else st)"

definition bt_force_close :: "bar \<Rightarrow> backtest_runner \<times> backtest_result \<Rightarrow> backtest_runner \<times> backtest_result" where
  "bt_force_close b st = bt_close_position (bar_close b) b ForceClose st"

definition dabs :: "double \<Rightarrow> double" where
  "dabs x = (if x < lit 0 then - x else x)"

definition bt_finalize :: "backtest_result \<Rightarrow> backtest_result" where
  "bt_finalize res =
     (let total = bt_wins res + bt_losses res;
          gross_win = foldl (\<lambda>g t. if lit 0 < tr_pnl_ticks t then g + tr_pnl_ticks t else g) (lit 0) (bt_trades res);
          gross_loss = foldl (\<lambda>g t. if lit 0 < tr_pnl_ticks t then g else g + dabs (tr_pnl_ticks t)) (lit 0) (bt_trades res)
      in res\<lparr>bt_win_rate := (if 0 < total then double_of_int (bt_wins res) / double_of_int total * lit 100 else lit 0),
             bt_profit_factor := (if lit 0 < gross_loss then gross_win / gross_loss else lit 0)\<rparr>)"

section \<open>The replay\<close>

type_synonym bt_state = "confluence_strategy \<times> backtest_runner \<times> backtest_result"

definition bt_on_bar :: "bt_state \<Rightarrow> bar \<Rightarrow> bt_state" where
  "bt_on_bar st b =
     (case st of (s, r, res) \<Rightarrow>
        (let s1 = snd (on_bar s b);
             (r1, res1) = (if bt_position r \<noteq> 0 then bt_check_exit b (r, res) else (r, res))
         in if bt_position r1 = 0
            then (let (sig, s2) = on_bar s1 b
                  in if sig_direction sig = DirBuy \<or> sig_direction sig = DirSell
                     then (s2, bt_open_position b (sig_direction sig) (r1, res1)) else (s2, r1, res1))
            else (s1, r1, res1)))"

definition bt_run :: "confluence_strategy \<Rightarrow> backtest_runner \<Rightarrow> bar list \<Rightarrow> backtest_result" where
  "bt_run s r bars =
     (case foldl bt_on_bar (s, r, empty_result\<lparr>bt_total_bars := wrap32 (int (length bars))\<rparr>) bars of
        (s1, r1, res1) \<Rightarrow>
          bt_finalize (if bt_position r1 \<noteq> 0 then snd (bt_force_close (last bars) (r1, res1)) else res1))"

definition backtest_config :: "double \<Rightarrow> double \<Rightarrow> confluence_config" where
  "backtest_config sl tp =
     (default_confluence_config \<lparr>security_code = ''Si-6.26'', security_board = ''FORTS''\<rparr>)
       \<lparr>base_qty := 1, sl_ticks := sl, tp_ticks := tp, tick_size := lit 1\<rparr>"

text \<open>\<open>main\<close>: \<open>Inl\<close> an exit code without a run, \<open>None\<close> when \<open>std::stod\<close> throws.\<close>

definition arg_double :: "string list \<Rightarrow> nat \<Rightarrow> double \<Rightarrow> double option" where
  "arg_double argv k dflt = (if k < length argv then stod (argv ! k) else Some dflt)"

definition backtest_main ::
  "libm \<Rightarrow> (string \<Rightarrow> string list option) \<Rightarrow> string list \<Rightarrow> (int + backtest_result) option" where
  "backtest_main M files argv =
     (if length argv < 2 then Some (Inl 1)
      else case (arg_double argv 2 (lit 30), arg_double argv 3 (lit 90), arg_double argv 4 (lit 0)) of
             (Some sl, Some tp, Some comm) \<Rightarrow>
               Some (Inr (bt_run (new_confluence M (backtest_config sl tp))
                 (new_backtest_runner \<lparr>bt_sl_ticks = sl, bt_tp_ticks = tp, bt_tick_size = lit 1, bt_slippage = lit 0,
                    bt_commission = comm\<rparr>)
                 (load_csv (files (argv ! 1)))))
           | _ \<Rightarrow> None)"

section \<open>Accounting\<close>

text \<open>Every trade opened is closed once or still open, and is a win or a loss.\<close>

definition bt_inv :: "backtest_runner \<times> backtest_result \<Rightarrow> bool" where
  "bt_inv st \<longleftrightarrow> (case st of (r, res) \<Rightarrow>
     bt_position r \<in> {- 1, 0, 1} \<and> bt_wins res + bt_losses res = int (length (bt_trades res))
     \<and> bt_total_trades res = int (length (bt_trades res)) + (if bt_position r = 0 then 0 else 1))"

datatype bt_op = BtOpen bar direction | BtExit bar | BtForce bar

fun bt_step :: "backtest_runner \<times> backtest_result \<Rightarrow> bt_op \<Rightarrow> backtest_runner \<times> backtest_result" where
  "bt_step st (BtOpen b dir) = bt_open_position b dir st"
| "bt_step st (BtExit b) = bt_check_exit b st"
| "bt_step st (BtForce b) = bt_force_close b st"

text \<open>The code opens only when flat, and closes only when not.\<close>

fun bt_guard :: "backtest_runner \<times> backtest_result \<Rightarrow> bt_op \<Rightarrow> bool" where
  "bt_guard st (BtOpen b dir) = (bt_position (fst st) = 0)"
| "bt_guard st _ = (bt_position (fst st) \<noteq> 0)"

lemma bt_close_position_inv: "bt_inv st \<Longrightarrow> bt_position (fst st) \<noteq> 0 \<Longrightarrow> bt_inv (bt_close_position p b reason st)"
  by (cases st) (simp add: bt_inv_def bt_close_position_def Let_def)

interpretation bt: guarded_machine bt_step bt_guard bt_inv
proof
  fix st op assume a: "bt_inv st" "bt_guard st op"
  show "bt_inv (bt_step st op)"
  proof (cases op)
    case (BtOpen b dir)
    then show ?thesis using a by (cases st) (simp add: bt_inv_def bt_open_position_def Let_def)
  next
    case (BtExit b)
    then show ?thesis using a bt_close_position_inv[OF a(1)] by (simp add: bt_check_exit_def Let_def)
  next
    case (BtForce b)
    then show ?thesis using a bt_close_position_inv[OF a(1)] by (simp add: bt_force_close_def)
  qed
qed

text \<open>When a bar touches both limits of a long position, the stop loss is taken.\<close>

lemma stop_loss_first:
  assumes "0 < bt_position r" "bar_low b \<le> bt_entry_price r - bt_sl_ticks (bt_cfg r) * bt_tick_size (bt_cfg r)"
  shows "\<exists>t. bt_trades (snd (bt_check_exit b (r, res))) = bt_trades res @ [t] \<and> tr_reason t = StopLoss"
  using assms by (simp add: bt_check_exit_def bt_close_position_def Let_def)

section \<open>No trades\<close>

lemma on_bar_no_signal: "fst (on_bar s b) = no_signal"
  by (simp add: on_bar_def Let_def split: bar_timeframe.split)

lemma bt_on_bar_idle: "bt_position r = 0 \<Longrightarrow> \<exists>s'. bt_on_bar (s, r, res) b = (s', r, res)"
  using on_bar_no_signal[of "snd (on_bar s b)" b]
  by (simp add: bt_on_bar_def case_prod_beta no_signal_def)

lemma bt_run_idle: "bt_position r = 0 \<Longrightarrow> \<exists>s'. foldl bt_on_bar (s, r, res) bars = (s', r, res)"
proof (induction bars arbitrary: s)
  case (Cons b bars)
  from bt_on_bar_idle[OF Cons.prems, of s res b] obtain s' where "bt_on_bar (s, r, res) b = (s', r, res)" by blast
  then show ?case using Cons.IH[OF Cons.prems, of s'] by simp
qed simp

text \<open>The bars of a file carry no symbol, so a strategy with one does not even see them.\<close>

lemma bar_of_line_symbol: "bar_of_line line = Some b \<Longrightarrow> bar_symbol b = empty_symbol"
  by (auto simp: bar_of_line_def split: option.splits)

lemma csv_bar_symbol: "b \<in> set (load_csv file) \<Longrightarrow> bar_symbol b = empty_symbol"
  by (auto simp: load_csv_def List.map_filter_def dest: bar_of_line_symbol split: option.splits if_splits)

lemma csv_bars_ignored:
  assumes "cs_symbol (cs_cfg s) \<noteq> empty_symbol"
  shows "set bars \<subseteq> set (load_csv file) \<Longrightarrow> foldl (\<lambda>s b. snd (on_bar s b)) s bars = s"
proof (induction bars)
  case (Cons b bars)
  have "bar_symbol b \<noteq> cs_symbol (cs_cfg s)" using csv_bar_symbol[of b] Cons.prems assms by auto
  then have "snd (on_bar s b) = s" by (simp add: on_bar_def)
  with Cons show ?case by simp
qed simp

section \<open>Properties\<close>

text \<open>
  A backtest never trades. The replay looks for entries only in what \<open>on_bar\<close> returns, and
  \<open>on_bar\<close> never returns one; so for every strategy and every list of bars the report shows no
  trade, no win, no loss and a profit of zero, whatever the limits on the command line.
\<close>

lemma backtest_never_trades:
  "bt_run s (new_backtest_runner cfg) bars = empty_result\<lparr>bt_total_bars := wrap32 (int (length bars))\<rparr>"
proof -
  have "bt_position (new_backtest_runner cfg) = 0" by (simp add: new_backtest_runner_def)
  from bt_run_idle[OF this] obtain s' where "foldl bt_on_bar (s, new_backtest_runner cfg, empty_result\<lparr>bt_total_bars := wrap32 (int (length bars))\<rparr>) bars
    = (s', new_backtest_runner cfg, empty_result\<lparr>bt_total_bars := wrap32 (int (length bars))\<rparr>)"
    by blast
  then show ?thesis
    by (simp add: bt_run_def new_backtest_runner_def bt_finalize_def empty_result_def Let_def)
qed

end
