(* ===== verification/Unit_Tests.thy ===== *)
theory Unit_Tests
  imports Backoff Confluence Risk_Manager
begin

text \<open>
  The test cases of \<open>tests/unit/\<close>, as statements about the model for every value that a test leaves
  open: the time it runs at, the random numbers it draws. Where a test does not hold of the code, the
  lemma says what the code does instead.
\<close>

section \<open>\<open>test_backoff.cpp\<close>\<close>

fun delays :: "distribution list \<Rightarrow> backoff \<Rightarrow> int list \<times> backoff" where
  "delays [] b = ([], b)"
| "delays (draw # draws) b = (let (d, b1) = next_delay draw b; (ds, b2) = delays draws b1 in (d # ds, b2))"

lemma delays_state:
  "0 \<le> attempt b \<Longrightarrow> attempt b + int (length draws) < 2 ^ 31 \<Longrightarrow>
   snd (delays draws b) = b\<lparr>attempt := attempt b + int (length draws)\<rparr>"
  by (induction draws arbitrary: b) (auto simp: next_delay_def wrap32_id case_prod_beta Let_def)

lemma test_initial_delay:
  assumes "uniform draw"
  shows "fst (next_delay draw (new_backoff default_backoff_config)) \<in> {375..625}"
  using delay_within[OF assms, of "new_backoff default_backoff_config" 125]
  by (auto simp: next_delay_def new_backoff_def nominal_delay_def)

lemma test_doubles_each_attempt:
  assumes "uniform d0" "uniform d1" "uniform d2"
  shows "\<exists>x y z b. delays [d0, d1, d2] (new_backoff default_backoff_config) = ([x, y, z], b) \<and> x < y \<and> y < z"
  using delays_grow[OF assms(1,2), of "new_backoff default_backoff_config"]
    delays_grow[OF assms(2,3), of "(new_backoff default_backoff_config)\<lparr>attempt := 1\<rparr>"]
  by (simp add: next_delay_def new_backoff_def wrap32_id)

lemma test_caps_at_max_delay:
  assumes "uniform draw" "length draws = 10"
  shows "fst (next_delay draw (snd (delays draws (new_backoff default_backoff_config)))) \<le> 37500"
  using delay_within[OF assms(1), of "(new_backoff default_backoff_config)\<lparr>attempt := 10\<rparr>" 7500] assms(2)
  by (simp add: next_delay_def delays_state new_backoff_def nominal_delay_def)

lemma test_reset:
  assumes "length draws = 5"
  shows "attempt (snd (delays draws (new_backoff default_backoff_config))) = 5"
    and "backoff_reset (snd (delays draws (new_backoff default_backoff_config))) = new_backoff default_backoff_config"
  using assms by (simp_all add: delays_state new_backoff_def backoff_reset_def)

lemma test_wait_stopped:
  assumes "uniform draw"
  shows "\<exists>b'. backoff_wait (\<lambda>_. True) draw i (new_backoff default_backoff_config) = Some (False, Suc i, b')"
proof -
  have "0 < compute_delay draw (new_backoff default_backoff_config)"
    using delay_within[OF assms, of "new_backoff default_backoff_config" 125]
    by (simp add: new_backoff_def nominal_delay_def)
  then show ?thesis by (simp add: backoff_wait_def wait_loop.simps Let_def)
qed

section \<open>\<open>test_contract.cpp\<close>\<close>

text \<open>10, 16 and 30 March and 12 December 2026. The tests still expect the old names, such as \<open>Si-3.26\<close>.\<close>

lemma test_third_friday: "third_friday 2026 3 = 20" "third_friday 2026 6 = 19"
  by code_simp+

lemma test_nearest_contract:
  "security_code (nearest_contract ''Si'' 5 (seconds 1773100800)) = ''SiH6''"
  "security_code (nearest_contract ''Si'' 5 (seconds 1773619200)) = ''SiM6''"
  "security_code (nearest_contract ''Si'' 5 (seconds 1774828800)) = ''SiM6''"
  "security_code (nearest_contract ''Si'' 5 (seconds 1797033600)) = ''SiZ6''"
  by code_simp+

section \<open>\<open>test_risk.cpp\<close>\<close>

text \<open>The tests check a copy of the code's checks; here they are the code's own. All limits are the defaults.\<close>

definition risk_at :: "double \<Rightarrow> double \<Rightarrow> double \<Rightarrow> double \<Rightarrow> risk_manager" where
  "risk_at liquid pnl positions peak =
     (new_risk_manager default_risk_config)\<lparr>peak_liquid := peak,
        account := empty_account\<lparr>liquid_value := liquid, daily_pnl := pnl, open_positions := positions\<rparr>\<rparr>"

lemmas risk_defs = risk_at_def new_risk_manager_def default_risk_config_def empty_account_def Let_def

lemma percents:
  "rnd (1/25) * lit 100 = Fin 4" "rnd (1/20) * lit 100 = Fin 5" "rnd (1/10) * lit 100 = Fin 10" "rnd (3/20) * lit 100 = Fin 15"
proof -
  note n = power_int_minus_divide
  have "rnd (1/25) = Fin (of_int 5764607523034235 * 2 powi - 57)" by (rule rnd_normal) (simp_all add: n)
  moreover have "rnd (of_int 5764607523034235 * 2 powi - 57 * 100) = Fin (of_int 4503599627370496 * 2 powi - 50)" by (rule rnd_normal) (simp_all add: n)
  ultimately show "rnd (1/25) * lit 100 = Fin 4" by (simp add: n)
  have "rnd (1/20) = Fin (of_int 7205759403792794 * 2 powi - 57)" by (rule rnd_normal) (simp_all add: n)
  moreover have "rnd (of_int 7205759403792794 * 2 powi - 57 * 100) = Fin (of_int 5629499534213120 * 2 powi - 50)" by (rule rnd_normal) (simp_all add: n)
  ultimately show "rnd (1/20) * lit 100 = Fin 5" by (simp add: n)
  have "rnd (1/10) = Fin (of_int 7205759403792794 * 2 powi - 56)" by (rule rnd_normal) (simp_all add: n)
  moreover have "rnd (of_int 7205759403792794 * 2 powi - 56 * 100) = Fin (of_int 5629499534213120 * 2 powi - 49)" by (rule rnd_normal) (simp_all add: n)
  ultimately show "rnd (1/10) * lit 100 = Fin 10" by (simp add: n)
  have "rnd (3/20) = Fin (of_int 5404319552844595 * 2 powi - 55)" by (rule rnd_normal) (simp_all add: n)
  moreover have "rnd (of_int 5404319552844595 * 2 powi - 55 * 100) = Fin (of_int 8444249301319680 * 2 powi - 49)" by (rule rnd_normal) (simp_all add: n)
  ultimately show "rnd (3/20) * lit 100 = Fin 15" by (simp add: n)
qed

lemma test_daily_loss:
  "check_daily_loss (risk_at (lit 100000) (lit (- 4000)) (lit 0) (lit 0)) = Inr ()"
  "check_daily_loss (risk_at (lit 100000) (lit (- 5000)) (lit 0) (lit 0)) = Inl (mk_error DailyLossLimitHit ''daily loss limit hit'')"
  using percents(1,2) by (simp_all add: check_daily_loss_def risk_defs)

lemma test_drawdown:
  "check_drawdown (risk_at (lit 90000) (lit 0) (lit 0) (lit 100000)) = Inr ()"
  "check_drawdown (risk_at (lit 85000) (lit 0) (lit 0) (lit 100000)) = Inl (mk_error RiskLimitExceeded ''max drawdown exceeded'')"
  using percents(3,4) by (simp_all add: check_drawdown_def risk_defs)

lemma test_positions:
  "check_position_count (risk_at (lit 0) (lit 0) (lit 2) (lit 0)) = Inr ()"
  "check_position_count (risk_at (lit 0) (lit 0) (lit 3) (lit 0)) = Inl (mk_error RiskLimitExceeded ''max positions reached'')"
  by (simp_all add: check_position_count_def risk_defs double_of_int_def)

section \<open>\<open>test_session_context.cpp\<close>\<close>

definition make_bar :: "double \<Rightarrow> double \<Rightarrow> double \<Rightarrow> double \<Rightarrow> time_point \<Rightarrow> bar" where
  "make_bar op h l c ts =
     \<lparr>bar_symbol = \<lparr>security_code = ''Si-6.26'', security_board = ''FORTS''\<rparr>, timeframe = ''D1'', bar_open = op,
      bar_high = h, bar_low = l, bar_close = c, bar_volume = 1000, bar_ts = ts, bar_date = []\<rparr>"

abbreviation fresh_context :: session_context where
  "fresh_context \<equiv> new_session_context default_session_config"

lemma test_atr: "Fin 0 < atr (on_daily_bar fresh_context (make_bar (lit 100) (lit 110) (lit 95) (lit 108) ts))"
  using lit_nano(1)
  by (simp add: on_daily_bar_def make_bar_def update_atr_def update_nr7_frame new_session_context_def Let_def)

lemma nr7_after:
  "nr7_confirmed (on_daily_bar (foldl on_daily_bar fresh_context bs) b) \<longleftrightarrow> narrowest 7 (map daily_range bs @ [daily_range b])"
  using nr7_after_daily[OF ring_holds_run, of default_session_config bs b]
  by (simp add: daily_run_cfg) (simp add: new_session_context_def default_session_config_def)

lemma test_nr7:
  assumes "length ts = 6"
  shows "nr7_confirmed (on_daily_bar (foldl on_daily_bar fresh_context (map (make_bar (lit 100) (lit 120) (lit 80) (lit 110)) ts))
      (make_bar (lit 100) (lit 105) (lit 98) (lit 103) t))"
    and "\<not> nr7_confirmed (on_daily_bar (foldl on_daily_bar fresh_context (map (make_bar (lit 100) (lit 105) (lit 98) (lit 103)) ts))
      (make_bar (lit 100) (lit 130) (lit 70) (lit 110) t))"
  using assms unfolding nr7_after
  by (auto simp: narrowest_def daily_range_def make_bar_def nth_append o_def intro!: exI[of _ 1])

text \<open>
  The test of the bias expects it to be long after \<open>finalize_orb(125)\<close>. In the code an opening range
  without a bar gives no bias, so the test fails.
\<close>

lemma test_orb_bias:
  defines "s \<equiv> \<lambda>ts. finalize_orb (sc_session_reset (on_daily_bar fresh_context (make_bar (lit 100) (lit 120) (lit 80) (lit 115) ts))) (lit 125)"
  shows "orb_finalized (s ts)" and "\<not> allows_long (s ts)" and "\<not> allows_short (s ts)"
  unfolding s_def using lit_nano(1) double_lowest_sentinel
  by (simp_all add: finalize_orb_def sc_session_reset_def allows_long_def allows_short_def Let_def)

lemma test_size_multiplier:
  "size_multiplier (on_daily_bar fresh_context (make_bar (lit 100) (lit 120) (lit 80) (lit 110) ts)) = lit (1/2)"
  "nr7_confirmed c \<Longrightarrow> size_multiplier c = lit 1"
  by (simp_all add: size_multiplier_def nr7_after[of "[]", simplified] narrowest_def)

section \<open>\<open>test_confluence.cpp\<close>\<close>

abbreviation si_626 :: symbol where
  "si_626 \<equiv> \<lparr>security_code = ''Si-6.26'', security_board = ''FORTS''\<rparr>"

definition test_strategy :: "libm \<Rightarrow> confluence_strategy" where
  "test_strategy M = new_confluence M (default_confluence_config si_626)"

definition test_fill :: order_update where
  "test_fill = \<lparr>order_no = 0, transaction_id = 0, upd_symbol = empty_symbol, upd_client_id = [], upd_side = Buy,
     upd_status = Filled, upd_type = Market, upd_price = lit 100, upd_qty_total = 0, upd_qty_filled = 1,
     upd_message = [], upd_ts = 0\<rparr>"

definition test_quote :: "double \<Rightarrow> double \<Rightarrow> time_point \<Rightarrow> quote" where
  "test_quote bid ask ts = \<lparr>q_symbol = si_626, q_bid = bid, q_ask = ask, q_last = lit 0, q_volume = 0, q_ts = ts\<rparr>"

text \<open>The strategy long one contract at 100, as the tests of the exits set it up.\<close>

abbreviation long_strategy :: "libm \<Rightarrow> quote \<Rightarrow> confluence_strategy" where
  "long_strategy M q \<equiv> update_bbo (on_order_update (test_strategy M) test_fill) (q_bid q) (q_ask q)"

lemmas strategy_defs = test_strategy_def test_fill_def test_quote_def new_confluence_def default_confluence_config_def
  on_order_update_def update_bbo_def Let_def

lemma long_strategy_fields:
  "cs_cfg (long_strategy M q) = default_confluence_config si_626" "position (long_strategy M q) = 1"
  "entry_price (long_strategy M q) = Fin 100" "session_opened_today (long_strategy M q) = False"
  by (simp_all add: strategy_defs)

lemma long_strategy_exit:
  assumes "quote_mid q = Fin m" "rnd (m - 100) = Fin (m - 100)"
  shows "m - 100 < - 30 \<Longrightarrow> exit_reason (long_strategy M q) (quote_mid q) = Some ''sl_hit''"
    and "90 < m - 100 \<Longrightarrow> exit_reason (long_strategy M q) (quote_mid q) = Some ''tp_hit''"
proof -
  have "\<not> Fin 100 < lit (1/10^9)"
    using lit_nano(2) double_less_le_trans[of "Fin 100" "lit (1/10^9)" "Fin 1"] by auto
  then show "m - 100 < - 30 \<Longrightarrow> exit_reason (long_strategy M q) (quote_mid q) = Some ''sl_hit''"
    "90 < m - 100 \<Longrightarrow> exit_reason (long_strategy M q) (quote_mid q) = Some ''tp_hit''"
    using assms by (simp_all add: exit_reason_def pnl_ticks_def long_strategy_fields default_confluence_config_def)
qed

text \<open>
  The stop loss and the take profit close the position unless the quote opens a session; a test that
  runs in the first five minutes of the session fails, because the quote then forgets the position.
\<close>

lemma test_exit:
  fixes M :: libm
  assumes "q \<in> {test_quote (lit 69) (lit 70) ts, test_quote (lit 191) (lit 192) ts}"
  defines "s \<equiv> long_strategy M q"
  shows "\<not> session_opens s ts \<Longrightarrow> sig_direction (fst (on_quote s q)) = DirClose \<and> sig_quantity (fst (on_quote s q)) = 1"
    and "session_opens s ts \<Longrightarrow> fst (on_quote s q) = no_signal \<and> position (snd (on_quote s q)) = 0"
proof -
  have q: "q_symbol q = cs_symbol (cs_cfg s)" "q_ts q = ts"
    using assms(1) by (auto simp: s_def test_quote_def long_strategy_fields default_confluence_config_def)
  have "quote_mid q = Fin (139/2) \<or> quote_mid q = Fin (383/2)"
    using assms(1) by (auto simp: test_quote_def quote_mid_def)
  then obtain r where "exit_reason s (quote_mid q) = Some r"
    unfolding s_def using long_strategy_exit[of q "139/2"] long_strategy_exit[of q "383/2"] rnd_half_int[of "- 61"]
    by auto
  then show "\<not> session_opens s ts \<Longrightarrow> sig_direction (fst (on_quote s q)) = DirClose \<and> sig_quantity (fst (on_quote s q)) = 1"
    using quote_closes(1)[of q s] q by (simp add: close_signal_def s_def long_strategy_fields)
  show "session_opens s ts \<Longrightarrow> fst (on_quote s q) = no_signal \<and> position (snd (on_quote s q)) = 0"
    using quote_opens_session[of q s] q by simp
qed

lemma test_daily_bar_no_signal: "fst (on_bar (test_strategy M) (make_bar (lit 100) (lit 120) (lit 90) (lit 115) ts)) = no_signal"
  by (simp add: on_bar_def strategy_defs make_bar_def detect_timeframe_def)

lemma test_no_entry_without_orb: "fst (on_book_event M (test_strategy M) e) = None"
  by (simp add: on_book_event_def try_enter_def strategy_defs new_session_context_def)

end
