(* ===== verification/Spec2Isabelle.thy ===== *)
theory Spec2Isabelle
  imports Spsc_Concurrent Trading_Spec Worked_Run Connectivity_Check Backtest Unit_Tests
begin

text \<open>
  A model of finam-tradebot, a C++ futures trading bot, with the properties that make its parts
  correct and the places where they are not. Paths are relative to the repository's \<open>src/\<close>.

  \<^bold>\<open>The program.\<close> \<open>main\<close> logs in through the \<open>TokenManager\<close>, whose thread keeps the token fresh, and
  starts a \<open>StrategyRunner\<close> per instrument, on the contract that \<open>core/contract.hpp\<close> names; a
  watchdog rolls it over to the next one. A runner receives book, trade and quote events from the
  \<open>MarketDataClient\<close> and order updates from the order client through one lock-free queue, and bars
  directly. Its \<open>ConfluenceStrategy\<close> combines four analysers (order book imbalance, trade flow, spoof
  filter, session context) into entry and exit signals. The runner turns a signal into an order
  request, asks the shared \<open>RiskManager\<close>, and hands the request to the \<open>IOrderExecutor\<close>: the
  \<open>OrderClient\<close>, which places orders at the broker and feeds the broker's order stream back as updates
  to all runners, or the dry run executor. Every stream runs in a thread of its own that reconnects
  with a backoff. A \<open>HealthServer\<close> reports the state of the breaker.

  \<^bold>\<open>Theories.\<close>
  \<^item> \<open>Prelude\<close>: integer widths, the clock, cyclic buffers, and the contracts of state machines
    with an invariant (\<open>inv_machine\<close>), a guarded invariant (\<open>guarded_machine\<close>) and a latch
    (\<open>latch_machine\<close>), which the components interpret on their own step functions, and of a
    refinement of step relations (\<open>simulation\<close>), interpreted on the queue and on the whole program.
  \<^item> \<open>Doubles\<close>: IEEE binary64 arithmetic as the code uses it: rationals rounded to nearest even,
    infinities and NaN, comparisons false on NaN, casts to integers. There is one zero: the sign
    of zero shows only in the health server's metrics text, where the model leaves it out.
  \<^item> \<open>Cxx_Text\<close>: \<open>std::to_string\<close>, \<open>stoi\<close>, \<open>stol\<close>, \<open>stod\<close>, \<open>find\<close>.
  \<^item> \<open>Interfaces\<close> (\<open>core/interfaces.hpp\<close>): the shared types; \<open>Result\<close> is \<open>error + 'a\<close>.
  \<^item> \<open>Spsc_Queue\<close>, \<open>Spsc_Concurrent\<close> (\<open>core/spsc_queue.hpp\<close>, \<open>core/event_bus.hpp\<close>): both queue
    classes on 64-bit indices, the contract \<open>bounded_fifo\<close> they implement, and the interleaving
    of the single memory accesses of producers and a consumer, which implements the abstract
    machine \<open>fifo_step\<close>. C7, C8.
  \<^item> \<open>Contract\<close> (\<open>core/contract.hpp\<close>): the futures calendar. C9.
  \<^item> \<open>Ofi_Types\<close>, \<open>Order_Book_State\<close>, \<open>Trade_Flow\<close>, \<open>Spoof_Filter\<close>, \<open>Session_Context\<close> (the
    headers of the same names under \<open>strategy/\<close>): one record and one function per method each;
    C10 to C14. Both voters implement the contract \<open>threshold_voter\<close>.
  \<^item> \<open>Confluence\<close> (\<open>strategy/confluence_strategy.hpp\<close>): all handlers of the strategy; C15 to C18.
  \<^item> \<open>Risk_Manager\<close> (\<open>risk/risk_manager.cpp\<close>): checks, fills, account refresh and its polling
    thread, breaker; the contract \<open>risk_gate\<close> is what the runner relies on. C19 to C21.
  \<^item> \<open>Order_Client\<close> (\<open>order/order_client.cpp\<close>): validation, \<open>%.10g\<close> formatting, submit split at
    the broker's answer, cancel, the order table and the stream messages; the contract
    \<open>order_executor\<close> is \<open>IOrderExecutor\<close>. C22, C23.
  \<^item> \<open>Subscriptions\<close> (\<open>Subscription\<close> of \<open>market_data/market_data_client.hpp\<close>): handles, stop flags and
    detached threads; the contract \<open>subscription_service\<close> is what the owner of handles relies on.
  \<^item> \<open>Strategy_Runner\<close> (\<open>strategy/strategy_runner.hpp\<close>): callbacks, signals, dispatch, rollover with
    the change of subscriptions, queue drain, the two threads; C24 to C26.
  \<^item> \<open>Runner_Threads\<close> (the same file): the destructor, and what the threads of a runner do together:
    a rollover is carried out, and when the strategy thread polls does not matter. C27, C28.
  \<^item> \<open>Backoff\<close> (\<open>core/backoff.hpp\<close>, \<open>core/maintenance.hpp\<close>): the waits of the stream threads. C29, C30.
  \<^item> \<open>Stream_Loop\<close>: the read and reconnect loops all streams share, what they promise (\<open>stream_result\<close>), and
    the contract \<open>stream_consumer\<close> of a message handler with an invariant.
  \<^item> \<open>Market_Data\<close> (\<open>market_data/market_data_client.cpp\<close>): conversions, history, the five
    subscriptions; the contract \<open>price_order\<close> of the price maps' comparisons. C31 to C34.
  \<^item> \<open>Order_Stream\<close> (\<open>OrderClient::run_order_stream\<close>): the order stream's thread, which delivers what
    the broker sends and stops when told to (\<open>order_stream_delivers_and_stops\<close>).
  \<^item> \<open>Token_Manager\<close> (\<open>auth/token_manager.cpp\<close>): login, token, renewal thread. C35.
  \<^item> \<open>Health_Server\<close> (\<open>core/health_server.hpp\<close>): requests, answers, metrics text, accept loop. Every
    answer is well formed and tells the truth (\<open>health_answers\<close>).
  \<^item> \<open>Connectivity_Check\<close> (\<open>connectivity_check/main.cpp\<close>): when the diagnostic program exits with 0.
  \<^item> \<open>Main_App\<close> (\<open>main.cpp\<close>): start-up, the dry run executor (an \<open>order_executor\<close>), the broadcast of
    order updates, the health status, shutdown with the joins of all threads. C36 to C38.
  \<^item> \<open>App_Run\<close>: the running program as a step relation over all its threads, with the invariants of
    its reachable states; \<open>Worked_Run\<close>: runs of it in which an order is placed, and in which the breaker
    trips while an order is on its way.
  \<^item> \<open>Trading_Spec\<close>: the abstract trading machine \<open>trading_step\<close> (breaker, contracts, approved and placed
    orders), and the proof that the running program implements it.
  \<^item> \<open>Backtest\<close> (\<open>tests/backtest/\<close>): reading the file, the replay, the trades and the report; no
    backtest ever trades (\<open>backtest_never_trades\<close>).
  \<^item> \<open>Unit_Tests\<close> (\<open>tests/unit/\<close>): the repository's test cases as lemmas about the model, for all times and
    random numbers; where a test contradicts the code the lemma says what the code does.
  \<^item> This theory: the running program, C1 to C6, and properties of several components, C39, C40.

  \<^bold>\<open>Correspondence.\<close> A class is a record of its members (template and configuration values are
  fields), a method a function from the old state to its result and the new state; \<open>std::optional\<close>
  is \<open>option\<close>; hash maps are maps, and where the code visits one its order is an argument; \<open>std::map\<close>
  is a sorted list of pairs; deques and arrays are lists. \<open>int32_t\<close> and \<open>int64_t\<close> are integers with
  the wrap-around written out where a result may leave the range; \<open>uint8_t\<close>, \<open>uint32_t\<close> and
  \<open>size_t\<close> are words. Logging is left out. Broker answers, \<open>std::exp\<close>, \<open>std::pow\<close>, random numbers,
  socket calls and the clock are arguments; \<open>env_of\<close> of \<open>Main_App\<close> puts the models of the market
  data client, the token manager and the executor in the place of the runner's arguments.

  \<^bold>\<open>Concurrency.\<close> The queue is modelled access by access (C7, C8). A thread's loop is a function of
  what it meets: the value of each of its loads of the stop flag, each reading of the clock, the
  messages of each connection, and what other threads do while it sleeps or blocks. All threads of
  the program together are the relation \<open>app_step\<close> of \<open>App_Run\<close>, whose steps are what a thread does
  under its locks: C1 to C6 hold for every interleaving of these steps and any answers of the broker.
  There, \<open>submit\<close> is split at its RPC; a decision of the strategy thread takes effect when it reads
  the breaker; an update reaches the runners together with the change of the order table; a push and
  the handling of a bar are one step each, so that the races of C8 and of the bar callbacks are not
  part of it; and threads that start while \<open>main\<close> still builds the other parts idle
  until it is done.

  \<^bold>\<open>Bounds.\<close> \<open>drain_queue\<close> has a bound on its passes; C26 shows that 2048 are enough for the queue of
  1024 slots. The waits are partial functions, \<open>None\<close> when they never return; C30, C34 and
  \<open>order_stream_delivers_and_stops\<close> show that they return. The stream threads are followed for a list
  of connections of any length. All other functions are total.

  \<^bold>\<open>What the properties show of the code.\<close> C1 to C5, C7, C9 to C17, C19, C22, C23 and C26 to C36 say
  that parts do what they are meant to. C6, C8, C18, C20, C21, C24, C25 and C37 to C40 describe
  behaviour that is hardly intended, at least in part: positions that are never closed because
  fills carry no price, a queue with several producers, sessions without entries, an expiry check
  that never fires, a partial close that forgets the whole position, closes of short positions that
  double them, a strategy left on the old contract after a rollover, updates about foreign orders
  that reach every runner, dry runs that never hold a position, fills counted twice, entries of
  zero lots.

  \<^bold>\<open>Not modelled.\<close> Logging (\<open>core/grpc_fmt.hpp\<close> with it), the printing of the backtest's report and its
  file of trades, the integration test, which needs the broker, and the gRPC library behind the stubs.
\<close>

section \<open>The running program\<close>







text \<open>
  C4: what a tripped breaker stops. From a reachable state in which the breaker is tripped it stays
  tripped, and whatever the threads do from then on, a runner gives at most one more order to the
  executor: the one its strategy thread had already got through the check and was about to submit.
\<close>

theorem breaker_stops_orders:
  assumes "reachable sv argv secret s" and "tripped (app_risk s)" and "app_steps s s'"
  shows "tripped (app_risk s') \<and> (\<exists>new. placed s' = placed s @ new
    \<and> (\<forall>i. prefix (map pl_request (filter (\<lambda>p. pl_runner p = i) new))
              (case pcs s i of Submitting ev r req \<Rightarrow> [req] | _ \<Rightarrow> [])))"
proof -
  obtain acc where "app_inv acc (''--dry-run'' \<notin> set (tl argv)) s" using reachable_inv[OF assms(1)] .
  from trading.steps_simulated[OF assms(3) this] assms(2)
  have h: "tripped (app_risk s') \<and> (\<exists>new. t_orders (trading_of s') = t_orders (trading_of s) @ new
    \<and> (\<forall>i. prefix (runner_orders i new @ pending (trading_of s') i) (pending (trading_of s) i)))"
    using trading_halts_run[of acc "''--dry-run'' \<notin> set (tl argv)" "trading_of s" "trading_of s'"] by auto
  obtain new where n: "placed s' = placed s @ new" using placed_grow[OF assms(3)] by blast
  with h have "\<forall>i. prefix (runner_orders i (map (\<lambda>p. (pl_runner p, pl_id p, pl_request p)) new) @ pending (trading_of s') i)
      (pending (trading_of s) i)" by auto
  moreover have "runner_orders i (map (\<lambda>p. (pl_runner p, pl_id p, pl_request p)) new)
      = map pl_request (filter (\<lambda>p. pl_runner p = i) new)" for i by (induction new) (auto simp: runner_orders_def)
  moreover have "pending (trading_of s) i = (case pcs s i of Submitting ev r req \<Rightarrow> [req] | _ \<Rightarrow> [])" for i
    by (simp add: pending_def split: strategy_pc.split)
  ultimately show ?thesis using h n by (metis append_prefixD)
qed

text \<open>A strategy thread that has got its entry through the check when another runner trips the breaker.\<close>

theorem breaker_stops_orders_witness:
  "\<exists>s s' p. run_reach s \<and> tripped (app_risk s) \<and> app_step s s' \<and> placed s = [] \<and> placed s' = [p] \<and> tripped (app_risk s')
    \<and> prefix [pl_request p] (case pcs s 0 of Submitting ev r req \<Rightarrow> [req] | _ \<Rightarrow> [])"
proof -
  obtain s r p s' where s: "run_reach s" "tripped (app_risk s)" "app_step s s'" "placed s = []" "placed s' = [p]" "pl_runner p = 0"
    by (rule example_trip)
  have "tripped (app_risk s')" "prefix [pl_request p] (case pcs s 0 of Submitting ev r req \<Rightarrow> [req] | _ \<Rightarrow> [])"
    using breaker_stops_orders[OF s(1,2) r_into_rtranclp[of app_step, OF s(3)]] s(4-6) by (auto dest: spec[of _ 0])
  with s show ?thesis by blast
qed



text \<open>
  C6: no position is ever closed. The orders the strategies ask for are market orders without a
  price, and both the answers to them and the reports of the order stream carry the price zero,
  which \<open>check_exit\<close> takes for no position. So in every reachable state no quote makes any strategy
  close anything, neither by stop loss nor by take profit nor on a reversal of the flow, and every
  order placed so far is an entry.
\<close>

theorem no_position_is_ever_closed:
  assumes "reachable sv argv secret s"
  shows "list_all (\<lambda>rn. \<forall>q. fst (on_quote (rn_strategy rn) q) = no_signal) (app_runners s)
    \<and> list_all (\<lambda>p. \<not> is_quote (pl_event p)) (placed s)"
proof -
  have "unpriced s" by (rule reachable_inv[OF assms]) (simp add: app_inv_def)
  then show ?thesis by (auto simp: unpriced_def list_all_iff unpriced_runner_def small_entry_def unpriced_strategy(5))
qed

theorem no_position_is_ever_closed_witness:
  "\<exists>s p. run_reach s \<and> placed s = [p] \<and> \<not> is_quote (pl_event p)
    \<and> list_all (\<lambda>rn. \<forall>q. fst (on_quote (rn_strategy rn) q) = no_signal) (app_runners s)"
proof -
  obtain s p where s: "run_reach s" "placed s = [p]"
    by (rule example_run)
  from no_position_is_ever_closed[OF s(1)] show ?thesis using s by (intro exI[of _ s] exI[of _ p]) simp
qed

section \<open>Fills across the order client and the strategy\<close>

lemma on_stream_order_update:
  "upd_price (fst (on_stream_order now c ord)) = Fin 0"
  "upd_status (fst (on_stream_order now c ord)) = map_status (so_status ord)"
  "upd_side (fst (on_stream_order now c ord)) = (if so_side_is_buy ord then Buy else Sell)"
  "upd_qty_filled (fst (on_stream_order now c ord)) =
     wrap32 (quantity_of (so_executed_quantity ord) - filled_of c (stream_local_id ord))"
  "filled_of (snd (on_stream_order now c ord)) lid =
     (if lid = stream_local_id ord then quantity_of (so_executed_quantity ord) else filled_of c lid)"
  by (simp_all add: on_stream_order_def stream_local_id_def upsert_fields Let_def)

lemma submit_response_ok:
  "submit_response c req lid (Inr resp) now = (r, us, c') \<Longrightarrow>
   (\<exists>u. us = [u] \<and> upd_status u = map_status (pr_status resp)) \<and> filled_of c' lid = 0"
  by (auto simp: submit_response_def upsert_def filled_of_def Let_def)

lemma fill_updates_position:
  "upd_status u = Filled \<Longrightarrow> upd_side u = Buy \<Longrightarrow>
   position (on_order_update s u) = wrap32 (position s + upd_qty_filled u)"
  by (simp add: on_order_update_def Let_def)

lemma idle_update: "upd_status u \<noteq> Filled \<Longrightarrow> on_order_update s u = s"
  by (simp add: on_order_update_def)

definition filled_order :: stream_order where
  "filled_order = \<lparr>so_order_id = ''77'', so_client_order_id = ''1'', so_side_is_buy = True,
     so_type_is_market = True, so_status = PS_FILLED, so_initial_quantity = ''2'', so_executed_quantity = ''2''\<rparr>"

text \<open>
  C39: a fill that overtakes the answer to its order is counted twice. The stream thread may
  report an order as filled before \<open>submit\<close> has recorded the broker's answer; recording it sets
  the filled quantity back to zero, so when the stream repeats the order (as it does on every
  reconnect) the strategy adds the same fill again: \<open>n\<close> lots bought become a position of \<open>2 * n\<close>.
\<close>

theorem overtaking_fill_counts_twice:
  assumes "position s = 0" and "filled_of c lid = 0" and "stream_local_id ord = lid"
    and "map_status (so_status ord) = Filled" and "so_side_is_buy ord"
    and "quantity_of (so_executed_quantity ord) = n" and "0 \<le> n" and "n < 2 ^ 30"
    and "on_stream_order t1 c ord = (u1, c1)"
    and "submit_response c1 req lid (Inr resp) t2 = (r, [u2], c2)" and "map_status (pr_status resp) = Pending"
    and "on_stream_order t3 c2 ord = (u3, c3)"
  shows "position (on_order_update (on_order_update (on_order_update s u1) u2) u3) = 2 * n"
proof -
  have w: "wrap32 n = n" "wrap32 (n + n) = n + n" using assms(7,8) by (simp_all add: wrap32_id)
  have u1: "upd_status u1 = Filled" "upd_side u1 = Buy" "upd_qty_filled u1 = n"
    using on_stream_order_update[of t1 c ord] assms(2-6,9) w by simp_all
  have u2: "upd_status u2 \<noteq> Filled" "filled_of c2 lid = 0"
    using submit_response_ok[OF assms(10)] assms(11) by auto
  then have u3: "upd_status u3 = Filled" "upd_side u3 = Buy" "upd_qty_filled u3 = n"
    using on_stream_order_update[of t3 c2 ord] assms(3-6,12) w by simp_all
  show ?thesis
    using fill_updates_position[OF u1(1,2)] fill_updates_position[OF u3(1,2)] idle_update[OF u2(1)] u1 u3 w assms(1)
    by simp
qed

theorem overtaking_fill_counts_twice_witness:
  "let (u1, c1) = on_stream_order 0 (new_order_client ''acc'') filled_order;
       (r, us, c2) = submit_response c1 (market_order Buy 2) 1 (Inr \<lparr>pr_order_id = ''77'', pr_status = PS_NEW\<rparr>) 0;
       (u3, c3) = on_stream_order 0 c2 filled_order
   in position (on_order_update (on_order_update (on_order_update armed u1) (hd us)) u3) = 4"
proof -
  let ?c = "new_order_client ''acc''" and ?resp = "\<lparr>pr_order_id = ''77'', pr_status = PS_NEW\<rparr>"
  let ?req = "market_order Buy 2"
  obtain u1 c1 where 1: "on_stream_order 0 ?c filled_order = (u1, c1)" by fastforce
  obtain r u2 c2 where 2: "submit_response c1 ?req 1 (Inr ?resp) 0 = (r, [u2], c2)"
    by (auto simp: submit_response_def upsert_def Let_def)
  obtain u3 c3 where 3: "on_stream_order 0 c2 filled_order = (u3, c3)" by fastforce
  have id: "stream_local_id filled_order = 1"
  proof -
    have "stol (int_to_string 1 @ []) = Some 1" unfolding stol_def by (rule parse_int_print) simp_all
    moreover have "int_to_string 1 = ''1''" by code_simp
    ultimately show ?thesis by (simp add: stream_local_id_def filled_order_def)
  qed
  have q: "quantity_of (so_executed_quantity filled_order) = 2"
  proof -
    have "stod (nat_to_string 2) = Some (Fin (of_nat 2))" by (rule stod_digits) simp
    moreover have "nat_to_string 2 = ''2''" by code_simp
    moreover have "cast_int 32 (Fin (of_int 2)) = 2" by (rule cast_int_Fin_int) simp_all
    ultimately show ?thesis by (simp add: quantity_of_def filled_order_def)
  qed
  have "position (on_order_update (on_order_update (on_order_update armed u1) u2) u3) = 2 * 2"
    by (rule overtaking_fill_counts_twice[OF _ _ id _ _ q _ _ 1 2 _ 3])
      (simp_all add: filled_of_def new_order_client_def filled_order_def map_status_def)
  then show ?thesis by (simp add: 1 2 3)
qed

section \<open>Entries that never reach the exchange\<close>

text \<open>
  C40: with one lot per instrument, as \<open>main\<close> configures it, every entry outside NR7 days is
  refused. The signal asks for zero lots, and \<open>OrderClient::submit\<close> rejects the request with
  \<open>InvalidQuantity\<close> without sending anything.
\<close>

theorem one_lot_entries_refused:
  assumes "cs_entry M s op = Some g" and "base_qty (cs_cfg s) = 1" and "\<not> nr7_confirmed (session_ctx s)"
    and "acc \<noteq> []"
  shows "\<exists>e. submit rpc now c (request_of acc g) = (Inl e, [], c) \<and> err_code e = InvalidQuantity"
proof -
  obtain long where g: "g = entry_order (cs_cfg s) False long"
    using assms(1,3) by (auto elim!: cs_entry_try simp: try_enter_iff)
  have "sig_quantity g = 0" using quantity_of_base[of 1 False] by (simp add: g entry_order_def assms(2))
  then show ?thesis
    using assms(4) by (simp add: submit_def submit_request_def validate_def request_of_def Let_def)
qed

theorem one_lot_entries_refused_witness:
  "\<exists>e. submit (\<lambda>_. Inl ''down'') 0 (new_order_client ''acc'')
     (request_of ''acc'' (entry_order (cs_cfg armed) False True)) = (Inl e, [], new_order_client ''acc'')"
proof -
  have "cs_entry step_libm armed (buy_at 10) = Some (entry_order (cs_cfg armed) False True)"
    by (rule armed_entry) (simp_all add: new_trade_flow_def)
  from one_lot_entries_refused[OF this, of "''acc''" "\<lambda>_. Inl ''down''" 0 "new_order_client ''acc''"]
  show ?thesis by (auto simp: default_confluence_config_def)
qed

end
